theory Spec2Isabelle
  imports Main "HOL-Library.AList" "HOL-Library.Multiset" "HOL-Library.Char_ord"
    "HOL-Library.List_Lexorder"
begin

section \<open>Data model\<close>

text \<open>
  The interfaces of \<^verbatim>\<open>WorkoutScreen.tsx\<close> (lines 18-38) and of the shared types file.
  An entry of \<^verbatim>\<open>Split.exercises\<close> has the three fields \<^verbatim>\<open>id\<close>, \<^verbatim>\<open>name\<close>,
  \<^verbatim>\<open>bodyPart\<close>; an \<^verbatim>\<open>Exercise\<close> adds \<^verbatim>\<open>splitIds\<close>; the detail screen's
  \<^verbatim>\<open>ExerciseWithDetails\<close> adds \<^verbatim>\<open>sets\<close>. TypeScript's structural subtyping (an object with
  more fields may stand where fewer are declared) is record extension here.
\<close>

record exercise_ref =
  ex_id :: string
  ex_name :: string
  ex_bodyPart :: string

record exercise = exercise_ref +
  splitIds :: "string list"

record workout_set =
  set_id :: string
  weight :: int
  reps :: int
  completed :: bool

record exercise_details = exercise +
  sets :: "workout_set list"

record 'e split =
  split_id :: string
  split_name :: string
  days :: "string list"
  color :: "string option"
  exercises :: "'e list"

record bodyPartSectionData =
  section_id :: string
  section_bodyPart :: string
  section_exercises :: "exercise list"

datatype EditMode = Mode_none | Mode_program | Mode_splits

definition WEEKDAYS :: "string list" where
  "WEEKDAYS = [''Mon'', ''Tue'', ''Wed'', ''Thu'', ''Fri'', ''Sat'', ''Sun'']"

section \<open>JavaScript values and objects\<close>

text \<open>
  A value that may be \<^verbatim>\<open>null\<close> or \<^verbatim>\<open>undefined\<close>. The two are different values of the
  language; both are falsy.
\<close>

datatype 'a nullable = JNull | JUndefined | JVal 'a

text \<open>A string is falsy exactly when it is empty.\<close>

definition truthy_str :: "string nullable \<Rightarrow> bool" where
  "truthy_str v = (case v of JVal s \<Rightarrow> s \<noteq> [] | _ \<Rightarrow> False)"

datatype js_error = TypeError

text \<open>
  A plain object literal \<^verbatim>\<open>{}\<close> used as a dictionary is kept as the list of its own
  properties in insertion order. Two rules of the language are visible to the code below:
  \<^item> a read \<^verbatim>\<open>acc[k]\<close> of a key that is not an own property falls through to
    \<^verbatim>\<open>Object.prototype\<close>, whose properties are functions or objects (truthy, and without
    a \<^verbatim>\<open>push\<close> method);
  \<^item> \<^verbatim>\<open>Object.entries\<close> lists the own keys that are array indices (canonical decimal
    numerals below \<open>2^32 - 1\<close>) first, in ascending numeric order, and then the other
    string keys in insertion order.
\<close>

definition object_prototype_keys :: "string list" where
  "object_prototype_keys =
     [''constructor'', ''hasOwnProperty'', ''isPrototypeOf'', ''propertyIsEnumerable'',
      ''toLocaleString'', ''toString'', ''valueOf'', ''__proto__'',
      ''__defineGetter__'', ''__defineSetter__'', ''__lookupGetter__'', ''__lookupSetter__'']"

definition int_of_digits :: "string \<Rightarrow> int" where
  "int_of_digits s = foldl (\<lambda>n c. 10 * n + (of_char c - 48)) 0 s"

definition is_array_index :: "string \<Rightarrow> bool" where
  "is_array_index s \<longleftrightarrow>
     s \<noteq> [] \<and> (\<forall>c \<in> set s. c \<in> set ''0123456789'') \<and>
     (length s = 1 \<or> hd s \<noteq> CHR ''0'') \<and> int_of_digits s < 4294967295"

definition object_entries :: "(string \<times> 'v) list \<Rightarrow> (string \<times> 'v) list" where
  "object_entries obj =
     sort_key (\<lambda>p. int_of_digits (fst p)) (filter (\<lambda>p. is_array_index (fst p)) obj)
     @ filter (\<lambda>p. \<not> is_array_index (fst p)) obj"

section \<open>Derivation of the roster and its grouping (processSplitsData)\<close>

text \<open>
  \<^verbatim>\<open>existingExercise.splitIds.push(split.id)\<close> mutates the first element of the accumulator
  that \<^verbatim>\<open>find\<close> returned; \<open>map_first\<close> rewrites that element in place.
\<close>

fun map_first :: "('a \<Rightarrow> bool) \<Rightarrow> ('a \<Rightarrow> 'a) \<Rightarrow> 'a list \<Rightarrow> 'a list" where
  "map_first P f [] = []"
| "map_first P f (x # xs) = (if P x then f x # xs else x # map_first P f xs)"

text \<open>The body of the \<^verbatim>\<open>forEach\<close> callback (lines 639-651), for the split with id \<open>sid\<close>.\<close>

definition add_exercise ::
  "string \<Rightarrow> 'x exercise_ref_scheme \<Rightarrow> exercise list \<Rightarrow> exercise list" where
  "add_exercise sid ex acc =
     (case find (\<lambda>e. ex_id e = ex_id ex) acc of
        Some existingExercise \<Rightarrow>
          if sid \<notin> set (splitIds existingExercise)
          then map_first (\<lambda>e. ex_id e = ex_id ex)
                 (\<lambda>e. e\<lparr>splitIds := splitIds e @ [sid]\<rparr>) acc
          else acc
      | None \<Rightarrow>
          acc @ [\<lparr>ex_id = ex_id ex, ex_name = ex_name ex, ex_bodyPart = ex_bodyPart ex,
                  splitIds = [sid]\<rparr>])"

text \<open>The first \<^verbatim>\<open>reduce\<close> (lines 638-653): the deduplicated roster.\<close>

definition roster_of :: "('x exercise_ref_scheme) split list \<Rightarrow> exercise list" where
  "roster_of splitsData =
     fold (\<lambda>split acc. fold (add_exercise (split_id split)) (exercises split) acc)
       splitsData []"

text \<open>
  The body of the second \<^verbatim>\<open>reduce\<close> (lines 656-662). When the body part is an own key the
  array is truthy and the exercise is pushed onto it. When it is not, \<^verbatim>\<open>acc[k]\<close> reads
  the prototype: an inherited property is truthy, no array is created, and the call of its
  missing \<^verbatim>\<open>push\<close> raises a \<^verbatim>\<open>TypeError\<close>; otherwise a new array is created at the end of
  the object and the exercise is pushed onto it.
\<close>

definition group_step ::
  "exercise \<Rightarrow> (string \<times> exercise list) list \<Rightarrow> js_error + (string \<times> exercise list) list" where
  "group_step exercise acc =
     (case map_of acc (ex_bodyPart exercise) of
        Some arr \<Rightarrow> Inr (AList.update (ex_bodyPart exercise) (arr @ [exercise]) acc)
      | None \<Rightarrow>
          if ex_bodyPart exercise \<in> set object_prototype_keys then Inl TypeError
          else Inr (AList.update (ex_bodyPart exercise) [exercise] acc))"

definition group_by_bodyPart ::
  "exercise list \<Rightarrow> js_error + (string \<times> exercise list) list" where
  "group_by_bodyPart roster =
     fold (\<lambda>exercise r. case r of Inl err \<Rightarrow> Inl err | Inr acc \<Rightarrow> group_step exercise acc)
       roster (Inr [])"

record processed =
  p_exercises :: "exercise list"
  p_exercisesByBodyPart :: "(string \<times> exercise list) list"
  p_bodyPartSections :: "bodyPartSectionData list"

text \<open>
  The whole function (lines 637-672). The grouped object is returned in the order in which
  the language enumerates it, which is the order \<^verbatim>\<open>Object.entries\<close> gives to the sections.
\<close>

definition processSplitsData ::
  "('x exercise_ref_scheme) split list \<Rightarrow> js_error + processed" where
  "processSplitsData splitsData =
     (let roster = roster_of splitsData in
      case group_by_bodyPart roster of
        Inl err \<Rightarrow> Inl err
      | Inr obj \<Rightarrow>
          Inr \<lparr>p_exercises = roster,
               p_exercisesByBodyPart = object_entries obj,
               p_bodyPartSections =
                 map (\<lambda>(bodyPart, bodyPartExercises).
                        \<lparr>section_id = bodyPart, section_bodyPart = bodyPart,
                         section_exercises = bodyPartExercises\<rparr>)
                     (object_entries obj)\<rparr>)"

section \<open>The workout screen: edit modes and the split editor\<close>

text \<open>
  The part of the component state of \<^verbatim>\<open>WorkoutScreen\<close> that the editor handlers read and
  write (lines 544-562). A handler sees the committed state and returns the next one.
\<close>

record 'e screen =
  splits :: "'e split list"
  editMode :: EditMode
  selectedDay :: "string nullable"
  selectedSplit :: "'e split nullable"

definition toggleProgramEditMode :: "'e screen \<Rightarrow> 'e screen" where
  "toggleProgramEditMode st =
     (if editMode st = Mode_program
      then st\<lparr>selectedDay := JNull, selectedSplit := JNull, editMode := Mode_none\<rparr>
      else if editMode st = Mode_none then st\<lparr>editMode := Mode_program\<rparr>
      else st)"

definition toggleSplitsEditMode :: "'e screen \<Rightarrow> 'e screen" where
  "toggleSplitsEditMode st =
     (if editMode st = Mode_splits then st\<lparr>editMode := Mode_none\<rparr>
      else if editMode st = Mode_none then st\<lparr>editMode := Mode_splits\<rparr>
      else st)"

text \<open>Lines 675-684.\<close>

definition handleDaySelect :: "string \<Rightarrow> 'e screen \<Rightarrow> 'e screen" where
  "handleDaySelect day st =
     (if editMode st \<noteq> Mode_program then st
      else if selectedDay st = JVal day then st\<lparr>selectedDay := JNull, selectedSplit := JNull\<rparr>
      else st\<lparr>selectedDay := JVal day\<rparr>)"

text \<open>
  The updater given to \<^verbatim>\<open>setSplits\<close> in \<^verbatim>\<open>handleSplitSelect\<close> (lines 689-706): the day is
  first filtered out of every split, then appended to each split whose id is the chosen one.
\<close>

definition assign_day :: "string \<Rightarrow> string \<Rightarrow> 'e split list \<Rightarrow> 'e split list" where
  "assign_day selDay target prevSplits =
     (let updatedSplits = map (\<lambda>s. s\<lparr>days := filter (\<lambda>d. d \<noteq> selDay) (days s)\<rparr>) prevSplits
      in map (\<lambda>s. if split_id s = target then s\<lparr>days := days s @ [selDay]\<rparr> else s)
           updatedSplits)"

text \<open>Lines 686-710. The guard returns when no day is selected (\<^verbatim>\<open>null\<close> or the empty
  string) or the screen is not in program edit mode.\<close>

definition handleSplitSelect :: "'e split \<Rightarrow> 'e screen \<Rightarrow> 'e screen" where
  "handleSplitSelect split st =
     (case selectedDay st of
        JVal selDay \<Rightarrow>
          if selDay = [] \<or> editMode st \<noteq> Mode_program then st
          else st\<lparr>splits := assign_day selDay (split_id split) (splits st),
                  selectedDay := JNull, selectedSplit := JNull\<rparr>
      | _ \<Rightarrow> st)"

text \<open>\<^verbatim>\<open>Number.prototype.toString\<close> on a non-negative integer: its decimal numeral.\<close>

fun toString :: "nat \<Rightarrow> string" where
  "toString n =
     (if n < 10 then [''0123456789'' ! n]
      else toString (n div 10) @ [''0123456789'' ! (n mod 10)])"

declare toString.simps [simp del]

text \<open>Lines 871-890. \<open>now\<close> is the reading of \<^verbatim>\<open>Date.now()\<close>, in milliseconds.\<close>

definition handleAddSplit :: "nat \<Rightarrow> 'e screen \<Rightarrow> 'e screen" where
  "handleAddSplit now st =
     (if editMode st \<noteq> Mode_splits then st
      else if length (splits st) \<ge> 7 then st
      else st\<lparr>splits := splits st @
                [\<lparr>split_id = toString now, split_name = [], days = [], color = None,
                  exercises = []\<rparr>]\<rparr>)"

text \<open>Lines 892-902, 839-853, 855-869 and 956-962.\<close>

definition handleDeleteSplit :: "string \<Rightarrow> 'e screen \<Rightarrow> 'e screen" where
  "handleDeleteSplit splitId st =
     (if editMode st \<noteq> Mode_splits then st
      else st\<lparr>splits := filter (\<lambda>split. split_id split \<noteq> splitId) (splits st)\<rparr>)"

definition handleSplitNameEdit :: "string \<Rightarrow> string \<Rightarrow> 'e screen \<Rightarrow> 'e screen" where
  "handleSplitNameEdit splitId newName st =
     (if editMode st \<noteq> Mode_splits then st
      else st\<lparr>splits := map (\<lambda>split. if split_id split = splitId
                                      then split\<lparr>split_name := newName\<rparr> else split)
                            (splits st)\<rparr>)"

definition handleColorSelect :: "string \<Rightarrow> string \<Rightarrow> 'e screen \<Rightarrow> 'e screen" where
  "handleColorSelect splitId c st =
     (if editMode st \<noteq> Mode_splits then st
      else st\<lparr>splits := map (\<lambda>split. if split_id split = splitId
                                      then split\<lparr>color := Some c\<rparr> else split)
                            (splits st)\<rparr>)"

definition handleSplitDetailUpdate :: "'e split \<Rightarrow> 'e screen \<Rightarrow> 'e screen" where
  "handleSplitDetailUpdate updatedSplit st =
     st\<lparr>splits := map (\<lambda>split. if split_id split = split_id updatedSplit
                                then updatedSplit else split)
                      (splits st)\<rparr>"

text \<open>The user's actions on the screen, and the handler each one runs.\<close>

datatype 'e editor_op =
    ToggleProgram
  | ToggleSplits
  | DaySelect string
  | SplitSelect "'e split"
  | AddSplit nat
  | DeleteSplit string
  | NameEdit string string
  | ColorSelect string string
  | DetailUpdate "'e split"

fun editor_step :: "'e editor_op \<Rightarrow> 'e screen \<Rightarrow> 'e screen" where
  "editor_step ToggleProgram st = toggleProgramEditMode st"
| "editor_step ToggleSplits st = toggleSplitsEditMode st"
| "editor_step (DaySelect day) st = handleDaySelect day st"
| "editor_step (SplitSelect split) st = handleSplitSelect split st"
| "editor_step (AddSplit now) st = handleAddSplit now st"
| "editor_step (DeleteSplit splitId) st = handleDeleteSplit splitId st"
| "editor_step (NameEdit splitId newName) st = handleSplitNameEdit splitId newName st"
| "editor_step (ColorSelect splitId c) st = handleColorSelect splitId c st"
| "editor_step (DetailUpdate updatedSplit) st = handleSplitDetailUpdate updatedSplit st"

section \<open>The split detail screen: adding exercises\<close>

text \<open>
  \<^verbatim>\<open>SplitDetailScreen\<close>: the split of the route parameters, the local list of exercises, and
  the splits of the data context. \<^verbatim>\<open>convertToWorkoutExercise\<close> spreads the three catalog
  fields and sets \<^verbatim>\<open>splitIds\<close> and \<^verbatim>\<open>sets\<close>.
\<close>

record detail_screen =
  route_split :: "exercise_details split"
  d_exercises :: "exercise_details list"
  ctx_splits :: "exercise_details split list"

definition convertToWorkoutExercise ::
  "exercise_details split \<Rightarrow> 'x exercise_ref_scheme \<Rightarrow> exercise_details" where
  "convertToWorkoutExercise split ex =
     \<lparr>ex_id = ex_id ex, ex_name = ex_name ex, ex_bodyPart = ex_bodyPart ex,
      splitIds = [split_id split], sets = []\<rparr>"

text \<open>
  \<^verbatim>\<open>handleAddExercise\<close>. The handler is a closure of the render that created it: the
  \<^verbatim>\<open>exercises\<close> and \<^verbatim>\<open>splits\<close> it reads are the values that render saw (here
  \<open>captured_exercises\<close> and \<open>captured_splits\<close>), whatever the state is when it runs. Only
  the updater given to \<^verbatim>\<open>setExercises\<close> receives the current list. The two awaited calls
  to the remote store follow; \<open>remote_ok\<close> says whether they resolve. When one of them
  rejects, the function stops there and \<^verbatim>\<open>updateSplits\<close>, which hands the new list of
  splits to the data context, is never reached.
\<close>

definition handleAddExercise ::
  "bool \<Rightarrow> exercise_details list \<Rightarrow> exercise_details split list \<Rightarrow>
   'x exercise_ref_scheme list \<Rightarrow> detail_screen \<Rightarrow> detail_screen" where
  "handleAddExercise remote_ok captured_exercises captured_splits newExercises st =
     (let newSelectedWorkoutExercises =
            map (convertToWorkoutExercise (route_split st)) newExercises;
          st1 = st\<lparr>d_exercises := d_exercises st @ newSelectedWorkoutExercises\<rparr>;
          list = captured_exercises @ newSelectedWorkoutExercises;
          updatedSplits =
            map (\<lambda>splitItem. if split_id splitItem = split_id (route_split st)
                              then (route_split st)\<lparr>exercises := list\<rparr> else splitItem)
                captured_splits
      in if remote_ok then st1\<lparr>ctx_splits := updatedSplits\<rparr> else st1)"

section \<open>Debounced persistence\<close>

text \<open>
  The platform's timers, on a logical clock in milliseconds: \<^verbatim>\<open>setTimeout\<close> registers a
  callback under a fresh positive id, \<^verbatim>\<open>clearTimeout\<close> removes the timer with the given
  id if it is still pending, and when the clock passes a timer's due time its callback runs
  once. The only callback here is the one in \<^verbatim>\<open>debouncedSave\<close>, which calls
  \<^verbatim>\<open>storageService.saveSplits(data)\<close>; a timer therefore carries the data it will save, and
  \<open>saved\<close> is the log of those calls with the time of each.
\<close>

record 'd persistence =
  clock :: nat
  next_timer :: nat
  pending :: "(nat \<times> nat \<times> 'd) list"
  saveTimeoutRef :: "nat option"
  isInitialLoadRef :: bool
  saved :: "(nat \<times> 'd) list"

definition mounted :: "'d persistence" where
  "mounted = \<lparr>clock = 0, next_timer = 1, pending = [], saveTimeoutRef = None,
              isInitialLoadRef = True, saved = []\<rparr>"

definition setTimeout :: "'d \<Rightarrow> nat \<Rightarrow> 'd persistence \<Rightarrow> nat \<times> 'd persistence" where
  "setTimeout data delay st =
     (next_timer st,
      st\<lparr>pending := pending st @ [(next_timer st, clock st + delay, data)],
         next_timer := Suc (next_timer st)\<rparr>)"

definition clearTimeout :: "nat \<Rightarrow> 'd persistence \<Rightarrow> 'd persistence" where
  "clearTimeout i st = st\<lparr>pending := filter (\<lambda>t. fst t \<noteq> i) (pending st)\<rparr>"

text \<open>Lines 723-736. The stored id is tested for truthiness before it is cleared.\<close>

definition debouncedSave :: "'d \<Rightarrow> 'd persistence \<Rightarrow> 'd persistence" where
  "debouncedSave data st =
     (let st1 = (case saveTimeoutRef st of
                   Some i \<Rightarrow> if i \<noteq> 0 then clearTimeout i st else st
                 | None \<Rightarrow> st);
          (i, st2) = setTimeout data 500 st1
      in st2\<lparr>saveTimeoutRef := Some i\<rparr>)"

text \<open>The effect that follows every change of \<^verbatim>\<open>splits\<close> (lines 787-791).\<close>

definition splits_effect :: "'d \<Rightarrow> 'd persistence \<Rightarrow> 'd persistence" where
  "splits_effect data st = (if \<not> isInitialLoadRef st then debouncedSave data st else st)"

text \<open>The clock moves to \<open>t\<close>: the timers due by then fire, earliest first, each at its due
  time.\<close>

definition advance :: "nat \<Rightarrow> 'd persistence \<Rightarrow> 'd persistence" where
  "advance t st =
     st\<lparr>clock := max (clock st) t,
        pending := filter (\<lambda>p. \<not> fst (snd p) \<le> t) (pending st),
        saved := saved st @
          map (\<lambda>p. (fst (snd p), snd (snd p)))
            (sort_key (\<lambda>p. fst (snd p)) (filter (\<lambda>p. fst (snd p) \<le> t) (pending st)))\<rparr>"

text \<open>A mutation of the schedule at time \<open>t\<close>, leaving it at the value \<open>data\<close>.\<close>

definition mutate :: "nat \<times> 'd \<Rightarrow> 'd persistence \<Rightarrow> 'd persistence" where
  "mutate ev st = splits_effect (snd ev) (advance (fst ev) st)"

section \<open>Session log lookup (the progress screen)\<close>

text \<open>
  The \<^verbatim>\<open>Date\<close> object of the language, as far as \<^verbatim>\<open>getDayOfWeek\<close> uses it. A time value
  is a number of milliseconds since 1 January 1970 UTC. The day number of the first day of
  a year, the days of a year before a month (months counted from 0) and the day number of a
  date are those of the language definition.
\<close>

definition msPerDay :: int where
  "msPerDay = 86400000"

definition InLeapYear :: "int \<Rightarrow> bool" where
  "InLeapYear y \<longleftrightarrow> y mod 4 = 0 \<and> (y mod 100 \<noteq> 0 \<or> y mod 400 = 0)"

definition DayFromYear :: "int \<Rightarrow> int" where
  "DayFromYear y =
     365 * (y - 1970) + (y - 1969) div 4 - (y - 1901) div 100 + (y - 1601) div 400"

definition days_before_month :: "nat \<Rightarrow> bool \<Rightarrow> int" where
  "days_before_month month leap =
     [0, 31, 59, 90, 120, 151, 181, 212, 243, 273, 304, 334] ! month
     + (if leap \<and> 2 \<le> month then 1 else 0)"

definition days_in_month :: "nat \<Rightarrow> bool \<Rightarrow> nat" where
  "days_in_month month leap =
     [31, if leap then 29 else 28, 31, 30, 31, 30, 31, 31, 30, 31, 30, 31] ! month"

definition MakeDay :: "int \<Rightarrow> nat \<Rightarrow> nat \<Rightarrow> int" where
  "MakeDay year month date =
     DayFromYear year + days_before_month month (InLeapYear year) + int date - 1"

text \<open>
  A string of the date-only form \<^verbatim>\<open>YYYY-MM-DD\<close>: its year, month (from 1) and day. The
  language reads such a string, when it names a date of the calendar, as the start of that
  day in UTC. What the platform makes of any other string is the parameter \<open>other\<close>
  (\<open>None\<close> for an invalid date, whose time value is \<^verbatim>\<open>NaN\<close>).
\<close>

definition is_digit :: "char \<Rightarrow> bool" where
  "is_digit c \<longleftrightarrow> c \<in> set ''0123456789''"

fun parse_date_only :: "string \<Rightarrow> (int \<times> nat \<times> nat) option" where
  "parse_date_only [y1, y2, y3, y4, h1, m1, m2, h2, d1, d2] =
     (if h1 = CHR ''-'' \<and> h2 = CHR ''-'' \<and> list_all is_digit [y1, y2, y3, y4, m1, m2, d1, d2]
      then Some (int_of_digits [y1, y2, y3, y4], nat (int_of_digits [m1, m2]),
                 nat (int_of_digits [d1, d2]))
      else None)"
| "parse_date_only _ = None"

definition Date_parse :: "(string \<Rightarrow> int option) \<Rightarrow> string \<Rightarrow> int option" where
  "Date_parse other s =
     (case parse_date_only s of
        Some (y, m, d) \<Rightarrow>
          if 1 \<le> m \<and> m \<le> 12 \<and> 1 \<le> d \<and> d \<le> days_in_month (m - 1) (InLeapYear y)
          then Some (MakeDay y (m - 1) d * msPerDay)
          else other s
      | None \<Rightarrow> other s)"

text \<open>
  \<^verbatim>\<open>Date.prototype.getDay\<close>: the weekday, 0 for Sunday, of the local time of the time
  value. Local time is the time value plus the offset of the device's time zone at that
  moment, \<open>tza t\<close> milliseconds (negative west of Greenwich).
\<close>

definition Date_getDay :: "(int \<Rightarrow> int) \<Rightarrow> int \<Rightarrow> nat" where
  "Date_getDay tza t = nat (((t + tza t) div msPerDay + 4) mod 7)"

text \<open>
  \<^verbatim>\<open>getDayOfWeek\<close>. For an invalid date \<^verbatim>\<open>getDay()\<close> is \<^verbatim>\<open>NaN\<close>, and indexing the
  seven-element array with anything but 0..6 reads \<^verbatim>\<open>undefined\<close>.
\<close>

definition getDayOfWeek ::
  "(int \<Rightarrow> int) \<Rightarrow> (string \<Rightarrow> int option) \<Rightarrow> string nullable \<Rightarrow> string nullable" where
  "getDayOfWeek tza other dateString =
     (case dateString of
        JVal s \<Rightarrow>
          if s = [] then JNull
          else (let days_tab = [''Sun'', ''Mon'', ''Tue'', ''Wed'', ''Thu'', ''Fri'', ''Sat'']
                in case Date_parse other s of
                     Some t \<Rightarrow>
                       if Date_getDay tza t < length days_tab
                       then JVal (days_tab ! Date_getDay tza t) else JUndefined
                   | None \<Rightarrow> JUndefined)
      | _ \<Rightarrow> JNull)"

text \<open>\<^verbatim>\<open>getScheduledSplit\<close>: \<^verbatim>\<open>null\<close> for a falsy day, otherwise the result of
  \<^verbatim>\<open>Array.prototype.find\<close>, which is \<^verbatim>\<open>undefined\<close> when no element matches.\<close>

definition getScheduledSplit :: "'e split list \<Rightarrow> string nullable \<Rightarrow> 'e split nullable" where
  "getScheduledSplit splits_ctx dayOfWeek =
     (case dayOfWeek of
        JVal d \<Rightarrow>
          if d = [] then JNull
          else (case find (\<lambda>split. d \<in> set (days split)) splits_ctx of
                  Some split \<Rightarrow> JVal split
                | None \<Rightarrow> JUndefined)
      | _ \<Rightarrow> JNull)"

text \<open>The memoised \<^verbatim>\<open>scheduledSplit\<close>: the selected date, or today's when none is selected.\<close>

definition scheduledSplit ::
  "(int \<Rightarrow> int) \<Rightarrow> (string \<Rightarrow> int option) \<Rightarrow> 'e split list \<Rightarrow> string nullable \<Rightarrow> string
   \<Rightarrow> 'e split nullable" where
  "scheduledSplit tza other splits_ctx selectedDate todayString =
     getScheduledSplit splits_ctx
       (getDayOfWeek tza other
          (if truthy_str selectedDate then selectedDate else JVal todayString))"

text \<open>\<^verbatim>\<open>String.prototype.padStart\<close> with a one-character filler, and the date string built
  from the year, the zero-based month and the day of the month.\<close>

definition padStart :: "nat \<Rightarrow> char \<Rightarrow> string \<Rightarrow> string" where
  "padStart n c s = replicate (n - length s) c @ s"

definition todayString :: "nat \<Rightarrow> nat \<Rightarrow> nat \<Rightarrow> string" where
  "todayString currentYear currentMonth date =
     toString currentYear @ ''-'' @ padStart 2 (CHR ''0'') (toString (currentMonth + 1))
       @ ''-'' @ padStart 2 (CHR ''0'') (toString date)"

text \<open>\<^verbatim>\<open>isFutureDate\<close>: the comparison of two strings, code unit by code unit.\<close>

definition isFutureDate :: "string nullable \<Rightarrow> string \<Rightarrow> bool" where
  "isFutureDate selectedDate today =
     (case selectedDate of JVal s \<Rightarrow> if s = [] then False else today < s | _ \<Rightarrow> False)"

section \<open>Notions used to state the properties\<close>

text \<open>Order of first occurrence: the list without its repeated elements, each kept where it
  is first seen (\<open>remdups\<close> keeps last occurrences, hence the reversals).\<close>

definition first_seen :: "'a list \<Rightarrow> 'a list" where
  "first_seen xs = rev (remdups (rev xs))"

text \<open>The split ids recorded for the roster entry with a given id, and the name and body part
  recorded for it.\<close>

definition splitIds_of :: "exercise list \<Rightarrow> string \<Rightarrow> string list option" where
  "splitIds_of acc i = map_option splitIds (find (\<lambda>e. ex_id e = i) acc)"


definition push_new :: "string \<Rightarrow> string list option \<Rightarrow> string list" where
  "push_new sid lo =
     (case lo of None \<Rightarrow> [sid] | Some l \<Rightarrow> if sid \<in> set l then l else l @ [sid])"

text \<open>The roster regrouped by body part: one group per body part, in order of first
  occurrence, each holding the roster's entries of that body part in roster order.\<close>

definition groups_of :: "exercise list \<Rightarrow> (string \<times> exercise list) list" where
  "groups_of roster =
     map (\<lambda>k. (k, filter (\<lambda>e. ex_bodyPart e = k) roster))
       (first_seen (map ex_bodyPart roster))"

text \<open>At most one timer is pending, and it is the one whose id the component holds; timer
  ids are positive.\<close>

definition armed :: "'d persistence \<Rightarrow> bool" where
  "armed st \<longleftrightarrow>
     next_timer st \<noteq> 0 \<and>
     (case pending st of
        [] \<Rightarrow> True
      | [p] \<Rightarrow> saveTimeoutRef st = Some (fst p) \<and> fst p \<noteq> 0
      | _ \<Rightarrow> False)"

text \<open>The mutations of a burst come less than a debounce window apart.\<close>

fun burst :: "(nat \<times> 'd) list \<Rightarrow> bool" where
  "burst [] = True"
| "burst [ev] = True"
| "burst (ev # ev' # evs) = (fst ev \<le> fst ev' \<and> fst ev' < fst ev + 500 \<and> burst (ev' # evs))"

section \<open>Lemmas on the derivation\<close>

subsection \<open>Order of first occurrence\<close>

lemma first_seen_Nil: "first_seen [] = []"
  by (simp add: first_seen_def)

lemma set_first_seen: "set (first_seen xs) = set xs"
  by (simp add: first_seen_def)

lemma distinct_first_seen: "distinct (first_seen xs)"
  by (simp add: first_seen_def)

lemma first_seen_snoc:
  "first_seen (xs @ [y]) = (if y \<in> set xs then first_seen xs else first_seen xs @ [y])"
  by (simp add: first_seen_def)

lemma first_seen_distinct: "distinct xs \<Longrightarrow> first_seen xs = xs"
  by (simp add: first_seen_def distinct_remdups_id)

lemma first_seen_absorb: "first_seen (first_seen xs @ ys) = first_seen (xs @ ys)"
proof (induction ys rule: rev_induct)
  case Nil
  show ?case by (simp add: first_seen_distinct distinct_first_seen)
next
  case (snoc y ys)
  have "first_seen (first_seen xs @ ys @ [y]) = first_seen ((first_seen xs @ ys) @ [y])"
    by simp
  also have "\<dots> = first_seen ((xs @ ys) @ [y])"
    unfolding first_seen_snoc using snoc.IH by (simp add: set_first_seen)
  finally show ?case by simp
qed

lemma map_first_ex_id:
  "map ex_id (map_first P (\<lambda>e. e\<lparr>splitIds := g e\<rparr>) acc) = map ex_id acc"
  by (induction acc) auto

lemma add_exercise_ids:
  "map ex_id (add_exercise sid ex acc) =
     (if ex_id ex \<in> ex_id ` set acc then map ex_id acc else map ex_id acc @ [ex_id ex])"
proof (cases "find (\<lambda>e. ex_id e = ex_id ex) acc")
  case None
  then have "ex_id ex \<notin> ex_id ` set acc"
    by (auto simp: find_None_iff)
  with None show ?thesis by (simp add: add_exercise_def)
next
  case (Some e)
  then have "ex_id ex \<in> ex_id ` set acc"
    by (auto simp: find_Some_iff image_iff) (metis nth_mem)
  with Some show ?thesis by (simp add: add_exercise_def map_first_ex_id)
qed

lemma fold_add_exercise_ids:
  "map ex_id (fold (add_exercise sid) rs acc) = first_seen (map ex_id acc @ map ex_id rs)"
  if "distinct (map ex_id acc)"
proof (induction rs rule: rev_induct)
  case Nil
  show ?case using that by (simp add: first_seen_distinct)
next
  case (snoc r rs)
  have "first_seen (map ex_id acc @ map ex_id (rs @ [r]))
        = first_seen ((map ex_id acc @ map ex_id rs) @ [ex_id r])" by simp
  also have "\<dots> = map ex_id (add_exercise sid r (fold (add_exercise sid) rs acc))"
    unfolding first_seen_snoc add_exercise_ids snoc.IH set_first_seen
    by (metis list.set_map set_first_seen snoc.IH)
  finally show ?case by simp
qed

lemma roster_of_snoc:
  "roster_of (ss @ [s]) = fold (add_exercise (split_id s)) (exercises s) (roster_of ss)"
  by (simp add: roster_of_def)

lemma roster_of_ids:
  "map ex_id (roster_of ss) = first_seen (concat (map (\<lambda>s. map ex_id (exercises s)) ss))"
proof (induction ss rule: rev_induct)
  case Nil
  show ?case by (simp add: roster_of_def first_seen_def)
next
  case (snoc s ss)
  have d: "distinct (map ex_id (roster_of ss))"
    by (simp add: snoc.IH distinct_first_seen)
  show ?case
    unfolding roster_of_snoc fold_add_exercise_ids[OF d] snoc.IH
    by (simp add: first_seen_absorb)
qed

lemma find_snoc:
  "find P (xs @ [x]) = (case find P xs of Some y \<Rightarrow> Some y | None \<Rightarrow> if P x then Some x else None)"
  by (induction xs) auto


lemma find_map_first_same:
  "find (\<lambda>e. ex_id e = i) (map_first (\<lambda>e. ex_id e = i) (\<lambda>e. e\<lparr>splitIds := g e\<rparr>) acc)
     = map_option (\<lambda>e. e\<lparr>splitIds := g e\<rparr>) (find (\<lambda>e. ex_id e = i) acc)"
  by (induction acc) auto

lemma find_map_first_other:
  "i \<noteq> j \<Longrightarrow>
   find (\<lambda>e. ex_id e = i) (map_first (\<lambda>e. ex_id e = j) (\<lambda>e. e\<lparr>splitIds := g e\<rparr>) acc)
     = find (\<lambda>e. ex_id e = i) acc"
  by (induction acc) auto

lemma push_new_idem: "push_new sid (Some (push_new sid lo)) = push_new sid lo"
  by (auto simp: push_new_def split: option.splits)

lemma splitIds_of_add_exercise:
  "splitIds_of (add_exercise sid ex acc) i =
     (if i = ex_id ex then Some (push_new sid (splitIds_of acc i)) else splitIds_of acc i)"
  by (cases "find (\<lambda>e. ex_id e = ex_id ex) acc")
     (auto simp: splitIds_of_def add_exercise_def find_snoc find_map_first_same push_new_def
        find_map_first_other split: option.splits)

lemma splitIds_of_fold_add_exercise:
  "splitIds_of (fold (add_exercise sid) rs acc) i =
     (if i \<in> ex_id ` set rs then Some (push_new sid (splitIds_of acc i))
      else splitIds_of acc i)"
proof (induction rs rule: rev_induct)
  case Nil
  show ?case by simp
next
  case (snoc r rs)
  show ?case
    using snoc.IH
    by (cases "i = ex_id r"; cases "i \<in> ex_id ` set rs")
       (simp_all add: splitIds_of_add_exercise push_new_idem)
qed

lemma splitIds_of_roster:
  "splitIds_of (roster_of ss) i =
     (if i \<in> (\<Union>s \<in> set ss. ex_id ` set (exercises s))
      then Some (first_seen (map split_id (filter (\<lambda>s. i \<in> ex_id ` set (exercises s)) ss)))
      else None)"
proof (induction ss rule: rev_induct)
  case Nil
  show ?case by (simp add: roster_of_def splitIds_of_def)
next
  case (snoc s ss)
  show ?case
    unfolding roster_of_snoc splitIds_of_fold_add_exercise snoc.IH
    by (auto simp: first_seen_snoc first_seen_Nil set_first_seen push_new_def)
qed

lemma find_distinct_self:
  "distinct (map f xs) \<Longrightarrow> x \<in> set xs \<Longrightarrow> find (\<lambda>e. f e = f x) xs = Some x"
  by (induction xs) (auto simp: image_iff)






lemma update_tabulate:
  "AList.update k v (map (\<lambda>a. (a, g a)) ks) =
     (if k \<in> set ks then map (\<lambda>a. (a, if a = k then v else g a)) ks
      else map (\<lambda>a. (a, g a)) ks @ [(k, v)])"
  if "distinct ks"
  using that by (induction ks) auto

lemma map_of_tabulate:
  "map_of (map (\<lambda>a. (a, g a)) ks) k = (if k \<in> set ks then Some (g k) else None)"
  by (induction ks) auto

lemma group_step_groups_of:
  "group_step x (groups_of xs) =
     (if ex_bodyPart x \<notin> ex_bodyPart ` set xs \<and> ex_bodyPart x \<in> set object_prototype_keys
      then Inl TypeError else Inr (groups_of (xs @ [x])))"
proof (cases "ex_bodyPart x \<in> ex_bodyPart ` set xs")
  case True
  then show ?thesis
    by (simp add: group_step_def groups_of_def map_of_tabulate set_first_seen
          update_tabulate distinct_first_seen first_seen_snoc)
next
  case False
  then have "filter (\<lambda>e. ex_bodyPart e = ex_bodyPart x) xs = []"
    by (auto simp: filter_empty_conv image_iff)
  with False show ?thesis
    by (auto simp add: group_step_def groups_of_def map_of_tabulate set_first_seen
          update_tabulate distinct_first_seen first_seen_snoc)
qed

lemma group_by_bodyPart_snoc:
  "group_by_bodyPart (xs @ [x]) =
     (case group_by_bodyPart xs of Inl err \<Rightarrow> Inl err | Inr acc \<Rightarrow> group_step x acc)"
  by (simp add: group_by_bodyPart_def)

lemma group_by_bodyPart_eq:
  "group_by_bodyPart roster =
     (if \<exists>e \<in> set roster. ex_bodyPart e \<in> set object_prototype_keys then Inl TypeError
      else Inr (groups_of roster))"
proof (induction roster rule: rev_induct)
  case Nil
  show ?case by (simp add: group_by_bodyPart_def groups_of_def first_seen_def)
next
  case (snoc x xs)
  show ?case
    unfolding group_by_bodyPart_snoc snoc.IH
    by (auto simp: group_step_groups_of)
qed


lemma mset_object_entries: "mset (object_entries obj) = mset obj"
  by (simp add: object_entries_def)

lemma set_object_entries: "set (object_entries obj) = set obj"
  by (auto simp add: object_entries_def)

lemma mset_filter_disjoint:
  "\<forall>x \<in> set xs. \<not> (P x \<and> Q x) \<Longrightarrow>
   mset (filter P xs) + mset (filter Q xs) = mset (filter (\<lambda>x. P x \<or> Q x) xs)"
  by (induction xs) auto

lemma mset_concat_classes:
  "distinct ks \<Longrightarrow>
   mset (concat (map (\<lambda>k. filter (\<lambda>e. f e = k) xs) ks)) = mset (filter (\<lambda>e. f e \<in> set ks) xs)"
proof (induction ks)
  case Nil
  show ?case by simp
next
  case (Cons k ks)
  then have "mset (concat (map (\<lambda>k. filter (\<lambda>e. f e = k) xs) (k # ks)))
     = mset (filter (\<lambda>e. f e = k) xs) + mset (filter (\<lambda>e. f e \<in> set ks) xs)"
    by simp
  also have "\<dots> = mset (filter (\<lambda>e. f e = k \<or> f e \<in> set ks) xs)"
    using Cons.prems by (intro mset_filter_disjoint) auto
  finally show ?case by (simp add: disj_commute eq_commute)
qed

lemma mset_flatten_groups_of: "mset (concat (map snd (groups_of roster))) = mset roster"
proof -
  have "map snd (groups_of roster)
        = map (\<lambda>k. filter (\<lambda>e. ex_bodyPart e = k) roster) (first_seen (map ex_bodyPart roster))"
    by (simp add: groups_of_def comp_def)
  then show ?thesis
    by (simp add: mset_concat_classes distinct_first_seen set_first_seen)
qed

lemma mset_concat_perm: "mset xs = mset ys \<Longrightarrow> mset (concat xs) = mset (concat ys)"
proof -
  assume a: "mset xs = mset ys"
  have "mset (concat xs) = sum_mset (mset (map mset xs))"
    by (simp only: mset_concat sum_mset_sum_list)
  also have "\<dots> = sum_mset (mset (map mset ys))"
    using a by (metis mset_map)
  also have "\<dots> = mset (concat ys)"
    by (simp only: mset_concat sum_mset_sum_list)
  finally show ?thesis .
qed

subsection \<open>The whole derivation\<close>

lemma processSplitsData_eq:
  "processSplitsData splitsData =
     (if \<exists>e \<in> set (roster_of splitsData). ex_bodyPart e \<in> set object_prototype_keys
      then Inl TypeError
      else Inr \<lparr>p_exercises = roster_of splitsData,
                p_exercisesByBodyPart = object_entries (groups_of (roster_of splitsData)),
                p_bodyPartSections =
                  map (\<lambda>(bodyPart, bodyPartExercises).
                         \<lparr>section_id = bodyPart, section_bodyPart = bodyPart,
                          section_exercises = bodyPartExercises\<rparr>)
                      (object_entries (groups_of (roster_of splitsData)))\<rparr>)"
  by (simp add: processSplitsData_def group_by_bodyPart_eq Let_def)

lemma roster_entry_splitIds:
  assumes "e \<in> set (roster_of ss)"
  shows "splitIds e =
     first_seen (map split_id (filter (\<lambda>s. ex_id e \<in> ex_id ` set (exercises s)) ss))"
proof -
  have d: "distinct (map ex_id (roster_of ss))"
    by (simp add: roster_of_ids distinct_first_seen)
  have "splitIds_of (roster_of ss) (ex_id e) = Some (splitIds e)"
    by (simp add: splitIds_of_def find_distinct_self[OF d assms])
  moreover have "ex_id e \<in> set (map ex_id (roster_of ss))"
    using assms by simp
  then have "ex_id e \<in> (\<Union>s \<in> set ss. ex_id ` set (exercises s))"
    unfolding roster_of_ids set_first_seen by auto
  ultimately show ?thesis
    by (simp add: splitIds_of_roster)
qed



lemma groups_of_snd:
  "p \<in> set (groups_of roster) \<Longrightarrow> snd p = filter (\<lambda>e. ex_bodyPart e = fst p) roster"
  by (auto simp: groups_of_def)


section \<open>Properties of the derivation\<close>




text \<open>
  Claim C3, as amended. Whenever no roster entry's body part is the name of an inherited
  property, the derivation returns, and flattening its grouped output gives a permutation
  of the roster: the same entries, each as often as in the roster, arranged group by group
  (every group holding the roster's entries of its body part in roster order).
\<close>

theorem flatten_groups_permutes_roster:
  assumes "\<forall>e \<in> set (roster_of splitsData). ex_bodyPart e \<notin> set object_prototype_keys"
  shows "\<exists>r. processSplitsData splitsData = Inr r
           \<and> mset (concat (map snd (p_exercisesByBodyPart r))) = mset (p_exercises r)
           \<and> concat (map snd (p_exercisesByBodyPart r))
               = concat (map (\<lambda>k. filter (\<lambda>e. ex_bodyPart e = k) (p_exercises r))
                           (map fst (p_exercisesByBodyPart r)))"
proof -
  let ?roster = "roster_of splitsData"
  let ?obj = "object_entries (groups_of ?roster)"
  let ?r = "\<lparr>p_exercises = ?roster, p_exercisesByBodyPart = ?obj,
             p_bodyPartSections =
               map (\<lambda>(bodyPart, bodyPartExercises).
                      \<lparr>section_id = bodyPart, section_bodyPart = bodyPart,
                       section_exercises = bodyPartExercises\<rparr>) ?obj\<rparr>"
  have run: "processSplitsData splitsData = Inr ?r"
    using assms by (simp add: processSplitsData_eq)
  have "mset (concat (map snd ?obj)) = mset (concat (map snd (groups_of ?roster)))"
    by (rule mset_concat_perm) (simp add: mset_object_entries)
  then have perm: "mset (concat (map snd (p_exercisesByBodyPart ?r))) = mset (p_exercises ?r)"
    by (simp add: mset_flatten_groups_of)
  have "map snd ?obj = map (\<lambda>p. filter (\<lambda>e. ex_bodyPart e = fst p) ?roster) ?obj"
    by (rule map_cong [OF refl]) (simp add: set_object_entries groups_of_snd)
  then have "concat (map snd ?obj)
      = concat (map (\<lambda>p. filter (\<lambda>e. ex_bodyPart e = fst p) ?roster) ?obj)"
    by (rule arg_cong)
  also have "\<dots> = concat (map (\<lambda>k. filter (\<lambda>e. ex_bodyPart e = k) ?roster) (map fst ?obj))"
    by (simp only: map_map comp_def)
  finally have shape: "concat (map snd (p_exercisesByBodyPart ?r))
      = concat (map (\<lambda>k. filter (\<lambda>e. ex_bodyPart e = k) (p_exercises ?r))
                  (map fst (p_exercisesByBodyPart ?r)))"
    by (simp only: processed.simps)
  from run perm shape show ?thesis
    by (intro exI [of _ ?r] conjI)
qed

text \<open>The theorem at a split whose exercises alternate between two body parts: the
  flattened groups hold the three roster entries, the two of the first group first.\<close>

theorem flatten_groups_permutes_roster_witness:
  "\<exists>r. processSplitsData
        [\<lparr>split_id = ''A'', split_name = ''Full body'', days = [''Mon''], color = None,
          exercises = [\<lparr>ex_id = ''chest-1'', ex_name = ''Flat Bench Press'',
                        ex_bodyPart = ''Chest''\<rparr>,
                       \<lparr>ex_id = ''legs-1'', ex_name = ''Squats'', ex_bodyPart = ''Legs''\<rparr>,
                       \<lparr>ex_id = ''chest-5'', ex_name = ''Dips'', ex_bodyPart = ''Chest''\<rparr>]\<rparr>]
        = Inr r
      \<and> mset (concat (map snd (p_exercisesByBodyPart r))) = mset (p_exercises r)
      \<and> map ex_id (p_exercises r) = [''chest-1'', ''legs-1'', ''chest-5'']"
proof -
  let ?ss = "[\<lparr>split_id = ''A'', split_name = ''Full body'', days = [''Mon''], color = None,
          exercises = [\<lparr>ex_id = ''chest-1'', ex_name = ''Flat Bench Press'',
                        ex_bodyPart = ''Chest''\<rparr>,
                       \<lparr>ex_id = ''legs-1'', ex_name = ''Squats'', ex_bodyPart = ''Legs''\<rparr>,
                       \<lparr>ex_id = ''chest-5'', ex_name = ''Dips'', ex_bodyPart = ''Chest''\<rparr>]\<rparr>]"
  have roster: "roster_of ?ss =
      [\<lparr>ex_id = ''chest-1'', ex_name = ''Flat Bench Press'', ex_bodyPart = ''Chest'',
        splitIds = [''A'']\<rparr>,
       \<lparr>ex_id = ''legs-1'', ex_name = ''Squats'', ex_bodyPart = ''Legs'', splitIds = [''A'']\<rparr>,
       \<lparr>ex_id = ''chest-5'', ex_name = ''Dips'', ex_bodyPart = ''Chest'', splitIds = [''A'']\<rparr>]"
    by (simp add: roster_of_def add_exercise_def)
  have h: "\<forall>e \<in> set (roster_of ?ss). ex_bodyPart e \<notin> set object_prototype_keys"
    unfolding roster by (simp add: object_prototype_keys_def)
  from flatten_groups_permutes_roster [OF h]
  obtain r where r: "processSplitsData ?ss = Inr r"
      "mset (concat (map snd (p_exercisesByBodyPart r))) = mset (p_exercises r)"
    by blast
  have "p_exercises r = roster_of ?ss"
    using r(1) by (auto simp: processSplitsData_eq split: if_splits)
  with r roster have c: "processSplitsData ?ss = Inr r
      \<and> mset (concat (map snd (p_exercisesByBodyPart r))) = mset (p_exercises r)
      \<and> map ex_id (p_exercises r) = [''chest-1'', ''legs-1'', ''chest-5'']"
    by simp
  show ?thesis
    by (rule exI [of _ r]) (rule c)
qed

text \<open>
  Claim C3 as stated fails: for a split listing a chest, a leg and another chest exercise,
  the roster is in that order, while the flattened groups put the two chest exercises
  first.
\<close>

theorem flatten_groups_differs_from_roster:
  "processSplitsData
        [\<lparr>split_id = ''A'', split_name = ''Full body'', days = [''Mon''], color = None,
          exercises = [\<lparr>ex_id = ''chest-1'', ex_name = ''Flat Bench Press'',
                        ex_bodyPart = ''Chest''\<rparr>,
                       \<lparr>ex_id = ''legs-1'', ex_name = ''Squats'', ex_bodyPart = ''Legs''\<rparr>,
                       \<lparr>ex_id = ''chest-5'', ex_name = ''Dips'', ex_bodyPart = ''Chest''\<rparr>]\<rparr>]
     = Inr \<lparr>p_exercises =
              [\<lparr>ex_id = ''chest-1'', ex_name = ''Flat Bench Press'', ex_bodyPart = ''Chest'',
                splitIds = [''A'']\<rparr>,
               \<lparr>ex_id = ''legs-1'', ex_name = ''Squats'', ex_bodyPart = ''Legs'',
                splitIds = [''A'']\<rparr>,
               \<lparr>ex_id = ''chest-5'', ex_name = ''Dips'', ex_bodyPart = ''Chest'',
                splitIds = [''A'']\<rparr>],
            p_exercisesByBodyPart =
              [(''Chest'',
                [\<lparr>ex_id = ''chest-1'', ex_name = ''Flat Bench Press'', ex_bodyPart = ''Chest'',
                  splitIds = [''A'']\<rparr>,
                 \<lparr>ex_id = ''chest-5'', ex_name = ''Dips'', ex_bodyPart = ''Chest'',
                  splitIds = [''A'']\<rparr>]),
               (''Legs'',
                [\<lparr>ex_id = ''legs-1'', ex_name = ''Squats'', ex_bodyPart = ''Legs'',
                  splitIds = [''A'']\<rparr>])],
            p_bodyPartSections =
              [\<lparr>section_id = ''Chest'', section_bodyPart = ''Chest'',
                section_exercises =
                  [\<lparr>ex_id = ''chest-1'', ex_name = ''Flat Bench Press'',
                    ex_bodyPart = ''Chest'', splitIds = [''A'']\<rparr>,
                   \<lparr>ex_id = ''chest-5'', ex_name = ''Dips'', ex_bodyPart = ''Chest'',
                    splitIds = [''A'']\<rparr>]\<rparr>,
               \<lparr>section_id = ''Legs'', section_bodyPart = ''Legs'',
                section_exercises =
                  [\<lparr>ex_id = ''legs-1'', ex_name = ''Squats'', ex_bodyPart = ''Legs'',
                    splitIds = [''A'']\<rparr>]\<rparr>]\<rparr>
   \<and> concat (map snd
        [(''Chest'',
          [\<lparr>ex_id = ''chest-1'', ex_name = ''Flat Bench Press'', ex_bodyPart = ''Chest'',
            splitIds = [''A'']\<rparr>,
           \<lparr>ex_id = ''chest-5'', ex_name = ''Dips'', ex_bodyPart = ''Chest'',
            splitIds = [''A'']\<rparr>]),
         (''Legs'',
          [\<lparr>ex_id = ''legs-1'', ex_name = ''Squats'', ex_bodyPart = ''Legs'',
            splitIds = [''A'']\<rparr>])])
     \<noteq> [\<lparr>ex_id = ''chest-1'', ex_name = ''Flat Bench Press'', ex_bodyPart = ''Chest'',
          splitIds = [''A'']\<rparr>,
         \<lparr>ex_id = ''legs-1'', ex_name = ''Squats'', ex_bodyPart = ''Legs'',
          splitIds = [''A'']\<rparr>,
         \<lparr>ex_id = ''chest-5'', ex_name = ''Dips'', ex_bodyPart = ''Chest'',
          splitIds = [''A'']\<rparr>]"
  by (simp add: processSplitsData_def roster_of_def add_exercise_def group_by_bodyPart_def
        group_step_def object_entries_def is_array_index_def object_prototype_keys_def
        int_of_digits_def)

text \<open>
  Claim C9. Whatever the splits hold, repeated exercise ids within one split included, the
  roster has pairwise different exercise ids, these are exactly the exercise ids that occur
  in some split, and no entry's \<^verbatim>\<open>splitIds\<close> repeats a split id. The roster is what
  \<^verbatim>\<open>processSplitsData\<close> returns as \<^verbatim>\<open>exercises\<close> whenever it returns.
\<close>

theorem roster_one_entry_per_exercise_id:
  "distinct (map ex_id (roster_of splitsData))
   \<and> set (map ex_id (roster_of splitsData))
       = (\<Union>s \<in> set splitsData. ex_id ` set (exercises s))
   \<and> (\<forall>e \<in> set (roster_of splitsData).
         distinct (splitIds e)
         \<and> set (splitIds e)
             = split_id ` {s \<in> set splitsData. ex_id e \<in> ex_id ` set (exercises s)})
   \<and> (\<forall>r. processSplitsData splitsData = Inr r \<longrightarrow> p_exercises r = roster_of splitsData)"
proof (intro conjI)
  show "distinct (map ex_id (roster_of splitsData))"
    by (simp add: roster_of_ids distinct_first_seen)
  show "set (map ex_id (roster_of splitsData))
       = (\<Union>s \<in> set splitsData. ex_id ` set (exercises s))"
    unfolding roster_of_ids set_first_seen by auto
  show "\<forall>e \<in> set (roster_of splitsData).
         distinct (splitIds e)
         \<and> set (splitIds e)
             = split_id ` {s \<in> set splitsData. ex_id e \<in> ex_id ` set (exercises s)}"
    by (auto simp: roster_entry_splitIds distinct_first_seen set_first_seen)
  show "\<forall>r. processSplitsData splitsData = Inr r \<longrightarrow> p_exercises r = roster_of splitsData"
    by (auto simp: processSplitsData_eq split: if_splits)
qed

text \<open>The theorem at two splits, the first of which lists the same exercise twice: the
  roster has one entry for it, with each split id once.\<close>

theorem roster_one_entry_per_exercise_id_witness:
  "roster_of
     [\<lparr>split_id = ''A'', split_name = ''Push'', days = [''Mon''], color = None,
       exercises = [\<lparr>ex_id = ''chest-1'', ex_name = ''Flat Bench Press'',
                     ex_bodyPart = ''Chest''\<rparr>,
                    \<lparr>ex_id = ''chest-1'', ex_name = ''Flat Bench Press'',
                     ex_bodyPart = ''Chest''\<rparr>]\<rparr>,
      \<lparr>split_id = ''B'', split_name = ''Pull'', days = [''Wed''], color = None,
       exercises = [\<lparr>ex_id = ''chest-1'', ex_name = ''Flat Bench Press'',
                     ex_bodyPart = ''Chest''\<rparr>]\<rparr>]
   = [\<lparr>ex_id = ''chest-1'', ex_name = ''Flat Bench Press'', ex_bodyPart = ''Chest'',
       splitIds = [''A'', ''B'']\<rparr>]
   \<and> distinct (map ex_id (roster_of
     [\<lparr>split_id = ''A'', split_name = ''Push'', days = [''Mon''], color = None,
       exercises = [\<lparr>ex_id = ''chest-1'', ex_name = ''Flat Bench Press'',
                     ex_bodyPart = ''Chest''\<rparr>,
                    \<lparr>ex_id = ''chest-1'', ex_name = ''Flat Bench Press'',
                     ex_bodyPart = ''Chest''\<rparr>]\<rparr>,
      \<lparr>split_id = ''B'', split_name = ''Pull'', days = [''Wed''], color = None,
       exercises = [\<lparr>ex_id = ''chest-1'', ex_name = ''Flat Bench Press'',
                     ex_bodyPart = ''Chest''\<rparr>]\<rparr>]))"
  using roster_one_entry_per_exercise_id
    [of "[\<lparr>split_id = ''A'', split_name = ''Push'', days = [''Mon''], color = None,
       exercises = [\<lparr>ex_id = ''chest-1'', ex_name = ''Flat Bench Press'',
                     ex_bodyPart = ''Chest''\<rparr>,
                    \<lparr>ex_id = ''chest-1'', ex_name = ''Flat Bench Press'',
                     ex_bodyPart = ''Chest''\<rparr>]\<rparr>,
      \<lparr>split_id = ''B'', split_name = ''Pull'', days = [''Wed''], color = None,
       exercises = [\<lparr>ex_id = ''chest-1'', ex_name = ''Flat Bench Press'',
                     ex_bodyPart = ''Chest''\<rparr>]\<rparr>]"]
  by (simp add: roster_of_def add_exercise_def)

section \<open>Properties of the split editor\<close>

lemma assign_day_nth:
  "i < length prevSplits \<Longrightarrow>
   assign_day D S prevSplits ! i =
     (if split_id (prevSplits ! i) = S
      then (prevSplits ! i)\<lparr>days := filter (\<lambda>d. d \<noteq> D) (days (prevSplits ! i)) @ [D]\<rparr>
      else (prevSplits ! i)\<lparr>days := filter (\<lambda>d. d \<noteq> D) (days (prevSplits ! i))\<rparr>)"
  by (simp add: assign_day_def)

lemma assign_day_ids: "map split_id (assign_day D S prevSplits) = map split_id prevSplits"
  by (simp add: assign_day_def comp_def)

lemma assign_day_member:
  "s \<in> set (assign_day D S prevSplits) \<Longrightarrow> (D \<in> set (days s)) = (split_id s = S)"
  by (auto simp: assign_day_def)

lemma assign_day_idem: "assign_day D S (assign_day D S prevSplits) = assign_day D S prevSplits"
  by (simp add: assign_day_def comp_def)

lemma length_filter_key_one:
  "distinct (map f xs) \<Longrightarrow> k \<in> f ` set xs \<Longrightarrow> length (filter (\<lambda>x. f x = k) xs) = 1"
proof (induction xs)
  case Nil
  then show ?case by simp
next
  case (Cons x xs)
  show ?case
  proof (cases "f x = k")
    case True
    with Cons.prems have "filter (\<lambda>x. f x = k) xs = []"
      by (auto simp: filter_empty_conv image_iff)
    with True show ?thesis by simp
  next
    case False
    with Cons show ?thesis by auto
  qed
qed

lemma handleSplitSelect_program:
  "editMode st = Mode_program \<Longrightarrow> selectedDay st = JVal D \<Longrightarrow> D \<noteq> [] \<Longrightarrow>
   handleSplitSelect split st =
     st\<lparr>splits := assign_day D (split_id split) (splits st),
        selectedDay := JNull, selectedSplit := JNull\<rparr>"
  by (simp add: handleSplitSelect_def)

text \<open>
  Claim C2. In program edit mode with the weekday \<open>D\<close> selected, choosing a split whose
  id occurs in the schedule replaces the schedule by the one in which \<open>D\<close> is first removed
  from every split's days and then appended to the days of the chosen split: afterwards
  the splits with the chosen id hold \<open>D\<close>, no split with another id does, and when the split
  ids are pairwise different exactly one split holds \<open>D\<close>. Nothing else changes.
\<close>

theorem handleSplitSelect_exclusive:
  assumes "editMode st = Mode_program" and "selectedDay st = JVal D" and "D \<noteq> []"
    and "split_id split \<in> split_id ` set (splits st)"
  shows "splits (handleSplitSelect split st)
           = map (\<lambda>s. if split_id s = split_id split then s\<lparr>days := days s @ [D]\<rparr> else s)
               (map (\<lambda>s. s\<lparr>days := filter (\<lambda>d. d \<noteq> D) (days s)\<rparr>) (splits st))
       \<and> (\<exists>s \<in> set (splits (handleSplitSelect split st)). split_id s = split_id split)
       \<and> (\<forall>s \<in> set (splits (handleSplitSelect split st)).
             (split_id s = split_id split \<longrightarrow> D \<in> set (days s))
           \<and> (split_id s \<noteq> split_id split \<longrightarrow> D \<notin> set (days s)))
       \<and> (distinct (map split_id (splits st)) \<longrightarrow>
             length (filter (\<lambda>s. D \<in> set (days s)) (splits (handleSplitSelect split st))) = 1)
       \<and> length (splits (handleSplitSelect split st)) = length (splits st)
       \<and> (\<forall>i < length (splits st).
             splits (handleSplitSelect split st) ! i =
               (splits st ! i)\<lparr>days :=
                  filter (\<lambda>d. d \<noteq> D) (days (splits st ! i))
                  @ (if split_id (splits st ! i) = split_id split then [D] else [])\<rparr>)"
proof -
  let ?S = "split_id split"
  let ?new = "assign_day D ?S (splits st)"
  have new: "splits (handleSplitSelect split st) = ?new"
    using assms(1-3) by (simp add: handleSplitSelect_program)
  have shape: "?new
           = map (\<lambda>s. if split_id s = ?S then s\<lparr>days := days s @ [D]\<rparr> else s)
               (map (\<lambda>s. s\<lparr>days := filter (\<lambda>d. d \<noteq> D) (days s)\<rparr>) (splits st))"
    by (simp add: assign_day_def)
  have "?S \<in> set (map split_id ?new)"
    using assms(4) by (simp add: assign_day_ids)
  then have present: "\<exists>s \<in> set ?new. split_id s = ?S"
    by auto
  have excl: "\<forall>s \<in> set ?new. (split_id s = ?S \<longrightarrow> D \<in> set (days s))
           \<and> (split_id s \<noteq> ?S \<longrightarrow> D \<notin> set (days s))"
    by (simp add: assign_day_member)
  have one: "distinct (map split_id (splits st)) \<longrightarrow>
             length (filter (\<lambda>s. D \<in> set (days s)) ?new) = 1"
  proof
    assume "distinct (map split_id (splits st))"
    then have d: "distinct (map split_id ?new)"
      by (simp add: assign_day_ids)
    have "filter (\<lambda>s. D \<in> set (days s)) ?new = filter (\<lambda>s. split_id s = ?S) ?new"
      by (rule filter_cong [OF refl]) (simp add: assign_day_member)
    moreover have "?S \<in> split_id ` set ?new"
      using present by (metis image_eqI)
    ultimately show "length (filter (\<lambda>s. D \<in> set (days s)) ?new) = 1"
      using length_filter_key_one [OF d] by simp
  qed
  have len: "length ?new = length (splits st)"
    by (simp add: assign_day_def)
  have nth: "\<forall>i < length (splits st).
             ?new ! i = (splits st ! i)\<lparr>days :=
                  filter (\<lambda>d. d \<noteq> D) (days (splits st ! i))
                  @ (if split_id (splits st ! i) = ?S then [D] else [])\<rparr>"
    by (simp add: assign_day_nth)
  from shape present excl one len nth show ?thesis
    unfolding new by (intro conjI)
qed

text \<open>The theorem at the schedule where Split A holds Monday and Monday is given to
  Split B.\<close>

theorem handleSplitSelect_exclusive_witness:
  "map days (splits (handleSplitSelect
      \<lparr>split_id = ''B'', split_name = ''Pull'', days = [''Wed''], color = None,
       exercises = []::exercise_ref list\<rparr>
      \<lparr>splits = [\<lparr>split_id = ''A'', split_name = ''Push'', days = [''Mon'', ''Thu''],
                  color = None, exercises = []\<rparr>,
                 \<lparr>split_id = ''B'', split_name = ''Pull'', days = [''Wed''], color = None,
                  exercises = []\<rparr>],
       editMode = Mode_program, selectedDay = JVal ''Mon'', selectedSplit = JNull\<rparr>))
   = [[''Thu''], [''Wed'', ''Mon'']]
   \<and> length (filter (\<lambda>s. ''Mon'' \<in> set (days s)) (splits (handleSplitSelect
      \<lparr>split_id = ''B'', split_name = ''Pull'', days = [''Wed''], color = None,
       exercises = []::exercise_ref list\<rparr>
      \<lparr>splits = [\<lparr>split_id = ''A'', split_name = ''Push'', days = [''Mon'', ''Thu''],
                  color = None, exercises = []\<rparr>,
                 \<lparr>split_id = ''B'', split_name = ''Pull'', days = [''Wed''], color = None,
                  exercises = []\<rparr>],
       editMode = Mode_program, selectedDay = JVal ''Mon'', selectedSplit = JNull\<rparr>))) = 1"
  using handleSplitSelect_exclusive
    [of "\<lparr>splits = [\<lparr>split_id = ''A'', split_name = ''Push'', days = [''Mon'', ''Thu''],
                  color = None, exercises = []\<rparr>,
                 \<lparr>split_id = ''B'', split_name = ''Pull'', days = [''Wed''], color = None,
                  exercises = []\<rparr>],
       editMode = Mode_program, selectedDay = JVal ''Mon'', selectedSplit = JNull\<rparr>"
        "''Mon''"
        "\<lparr>split_id = ''B'', split_name = ''Pull'', days = [''Wed''], color = None,
       exercises = []::exercise_ref list\<rparr>"]
  by simp

text \<open>
  Claim C4. With \<open>D\<close> selected in program edit mode, choosing the split a second time
  changes nothing: directly after the first choice the selection is cleared and the handler
  returns at its guard, and when \<open>D\<close> is selected again before the second choice the
  schedule, the order of every day list included, is the one the first choice produced.
  The updater itself is idempotent.
\<close>

theorem handleSplitSelect_idempotent:
  assumes "editMode st = Mode_program" and "selectedDay st = JVal D" and "D \<noteq> []"
    and "split_id split' = split_id split"
  shows "handleSplitSelect split' (handleSplitSelect split st) = handleSplitSelect split st
       \<and> splits (handleSplitSelect split' (handleDaySelect D (handleSplitSelect split st)))
           = splits (handleSplitSelect split st)
       \<and> assign_day D (split_id split) (assign_day D (split_id split) (splits st))
           = assign_day D (split_id split) (splits st)"
  using assms
  by (simp add: handleSplitSelect_program assign_day_idem)
     (simp add: handleSplitSelect_def handleDaySelect_def assign_day_idem)

theorem handleSplitSelect_idempotent_witness:
  "map days (splits (handleSplitSelect
      \<lparr>split_id = ''B'', split_name = ''Pull'', days = [''Wed'', ''Mon''], color = None,
       exercises = []::exercise_ref list\<rparr>
      (handleDaySelect ''Mon'' (handleSplitSelect
        \<lparr>split_id = ''B'', split_name = ''Pull'', days = [''Mon'', ''Wed''], color = None,
         exercises = []\<rparr>
        \<lparr>splits = [\<lparr>split_id = ''A'', split_name = ''Push'', days = [''Thu''],
                    color = None, exercises = []\<rparr>,
                   \<lparr>split_id = ''B'', split_name = ''Pull'', days = [''Mon'', ''Wed''],
                    color = None, exercises = []\<rparr>],
         editMode = Mode_program, selectedDay = JVal ''Mon'', selectedSplit = JNull\<rparr>))))
   = [[''Thu''], [''Wed'', ''Mon'']]"
  using handleSplitSelect_idempotent
    [of "\<lparr>splits = [\<lparr>split_id = ''A'', split_name = ''Push'', days = [''Thu''],
                    color = None, exercises = []\<rparr>,
                   \<lparr>split_id = ''B'', split_name = ''Pull'', days = [''Mon'', ''Wed''],
                    color = None, exercises = []\<rparr>],
         editMode = Mode_program, selectedDay = JVal ''Mon'', selectedSplit = JNull\<rparr>"
        "''Mon''"
        "\<lparr>split_id = ''B'', split_name = ''Pull'', days = [''Wed'', ''Mon''], color = None,
       exercises = []::exercise_ref list\<rparr>"
        "\<lparr>split_id = ''B'', split_name = ''Pull'', days = [''Mon'', ''Wed''], color = None,
         exercises = []::exercise_ref list\<rparr>"]
  by (simp add: handleSplitSelect_def assign_day_def)

lemma handleAddSplit_full:
  "length (splits st) \<ge> 7 \<Longrightarrow> handleAddSplit now st = st"
  by (simp add: handleAddSplit_def)

lemma handleAddSplit_appends:
  "editMode st = Mode_splits \<Longrightarrow> length (splits st) < 7 \<Longrightarrow>
   handleAddSplit now st =
     st\<lparr>splits := splits st @
          [\<lparr>split_id = toString now, split_name = [], days = [], color = None,
            exercises = []\<rparr>]\<rparr>"
  by (simp add: handleAddSplit_def)

lemma editor_step_bound:
  assumes "length (splits st) \<le> 7"
  shows "length (splits (editor_step op st)) \<le> 7"
proof (cases op)
  case (SplitSelect split)
  with assms show ?thesis
    by (auto simp: handleSplitSelect_def assign_day_def split: nullable.splits)
next
  case (DeleteSplit splitId)
  have "length (filter (\<lambda>split. split_id split \<noteq> splitId) (splits st)) \<le> 7"
    using assms by (rule le_trans [OF length_filter_le])
  with assms DeleteSplit show ?thesis
    by (simp add: handleDeleteSplit_def)
qed (use assms in \<open>auto simp: toggleProgramEditMode_def toggleSplitsEditMode_def
      handleDaySelect_def handleAddSplit_def handleSplitNameEdit_def handleColorSelect_def
      handleSplitDetailUpdate_def\<close>)

lemma editor_run_bound:
  "length (splits st) \<le> 7 \<Longrightarrow> length (splits (fold editor_step ops st)) \<le> 7"
  by (induction ops arbitrary: st) (simp_all add: editor_step_bound)

text \<open>
  Claim C5, at a failing input. The new split's id is the decimal numeral of the clock
  reading and is compared with nothing: when a split of the schedule already has that
  numeral as its id, the schedule ends with two splits of the same id.
\<close>

theorem handleAddSplit_repeats_existing_id:
  "map split_id (splits (handleAddSplit 1700000000000
      \<lparr>splits = [\<lparr>split_id = ''1700000000000'', split_name = ''Push'', days = [''Mon''],
                  color = None, exercises = []::exercise_ref list\<rparr>],
       editMode = Mode_splits, selectedDay = JNull, selectedSplit = JNull\<rparr>))
   = [''1700000000000'', ''1700000000000'']"
  by (simp add: handleAddSplit_def toString.simps)

section \<open>Properties of the split detail screen\<close>

lemma convertToWorkoutExercise_id:
  "map ex_id (map (convertToWorkoutExercise split) newExercises) = map ex_id newExercises"
  by (simp add: convertToWorkoutExercise_def comp_def)

lemma count_list_append: "count_list (xs @ ys) a = count_list xs a + count_list ys a"
  by (induction xs) auto

text \<open>
  What one call does. The list shown by the screen is extended at its end by the converted
  exercises, all of them and in order, whatever the handler captured and whether or not the
  remote calls resolve.
\<close>

lemma handleAddExercise_local_list:
  "d_exercises (handleAddExercise remote_ok captured_exercises captured_splits newExercises st)
   = d_exercises st @ map (convertToWorkoutExercise (route_split st)) newExercises"
  by (simp add: handleAddExercise_def Let_def)

lemma handleAddExercise_local_ids:
  "map ex_id (d_exercises
       (handleAddExercise remote_ok captured_exercises captured_splits newExercises st))
   = map ex_id (d_exercises st) @ map ex_id newExercises"
  by (simp only: handleAddExercise_local_list map_append convertToWorkoutExercise_id)

text \<open>
  The Schedule is another matter. The split that takes the place of the Schedule's split is
  the split the screen was opened with, and its list is the list the handler captured
  followed by the additions; the Schedule's own split contributes nothing to it.
\<close>

lemma handleAddExercise_schedule:
  "ctx_splits (handleAddExercise True captured_exercises captured_splits newExercises st)
   = map (\<lambda>splitItem. if split_id splitItem = split_id (route_split st)
            then (route_split st)\<lparr>exercises :=
                   captured_exercises @ map (convertToWorkoutExercise (route_split st)) newExercises\<rparr>
            else splitItem) captured_splits"
  by (simp add: handleAddExercise_def Let_def)

lemma handleAddExercise_rejected:
  "ctx_splits (handleAddExercise False captured_exercises captured_splits newExercises st)
   = ctx_splits st"
  by (simp add: handleAddExercise_def Let_def)


section \<open>Properties of the debounced save\<close>

lemma armed_cases:
  assumes "armed st"
  obtains "pending st = []" "next_timer st \<noteq> 0"
  | i due data where "pending st = [(i, due, data)]" "saveTimeoutRef st = Some i" "i \<noteq> 0"
      "next_timer st \<noteq> 0"
  using assms
  by (cases "pending st") (auto simp: armed_def split: list.splits)

lemma armed_clock: "armed (st\<lparr>clock := c\<rparr>) = armed st"
  by (simp add: armed_def split: list.splits)

lemma debouncedSave_armed:
  assumes "armed st"
  shows "debouncedSave data st =
           st\<lparr>pending := [(next_timer st, clock st + 500, data)],
              next_timer := Suc (next_timer st),
              saveTimeoutRef := Some (next_timer st)\<rparr>"
  using assms
proof (cases rule: armed_cases)
  case 1
  then show ?thesis
    by (simp add: debouncedSave_def clearTimeout_def setTimeout_def split: option.splits)
next
  case (2 i due data')
  then show ?thesis
    by (simp add: debouncedSave_def clearTimeout_def setTimeout_def)
qed

lemma armed_debouncedSave: "armed st \<Longrightarrow> armed (debouncedSave data st)"
  by (simp add: debouncedSave_armed) (simp add: armed_def)

lemma armed_advance: "armed st \<Longrightarrow> armed (advance t st)"
  by (erule armed_cases) (auto simp: armed_def advance_def)

lemma armed_mutate: "armed st \<Longrightarrow> armed (mutate ev st)"
  by (simp add: mutate_def splits_effect_def armed_debouncedSave armed_advance)

lemma armed_run: "armed st \<Longrightarrow> armed (fold mutate evs st)"
  by (induction evs arbitrary: st) (simp_all add: armed_mutate)

lemma armed_loaded: "armed (mounted\<lparr>isInitialLoadRef := False\<rparr>)"
  by (simp add: armed_def mounted_def)

lemma armed_pending_le: "armed st \<Longrightarrow> length (pending st) \<le> 1"
  by (erule armed_cases) simp_all

lemma advance_not_due:
  "\<forall>p \<in> set (pending st). t < fst (snd p) \<Longrightarrow>
   advance t st = st\<lparr>clock := max (clock st) t\<rparr>"
proof -
  assume a: "\<forall>p \<in> set (pending st). t < fst (snd p)"
  then have "filter (\<lambda>p. \<not> fst (snd p) \<le> t) (pending st) = pending st"
    by (auto simp: filter_id_conv)
  moreover from a have "filter (\<lambda>p. fst (snd p) \<le> t) (pending st) = []"
    by (auto simp: filter_empty_conv)
  ultimately show ?thesis
    by (simp add: advance_def)
qed

lemma mutate_in_burst:
  assumes "armed st" and "\<not> isInitialLoadRef st" and "clock st \<le> fst ev"
    and "\<forall>p \<in> set (pending st). fst ev < fst (snd p)"
  shows "mutate ev st =
           st\<lparr>clock := fst ev,
              pending := [(next_timer st, fst ev + 500, snd ev)],
              next_timer := Suc (next_timer st),
              saveTimeoutRef := Some (next_timer st)\<rparr>"
proof -
  have adv: "advance (fst ev) st = st\<lparr>clock := fst ev\<rparr>"
    using assms(3,4) by (simp add: advance_not_due max_def)
  have "armed (st\<lparr>clock := fst ev\<rparr>)"
    using assms(1) by (simp add: armed_clock)
  then show ?thesis
    using assms(2) by (simp add: mutate_def adv splits_effect_def debouncedSave_armed)
qed

lemma burst_run:
  assumes "burst (ev # evs)" and "armed st" and "\<not> isInitialLoadRef st"
    and "clock st \<le> fst ev" and "\<forall>p \<in> set (pending st). fst ev < fst (snd p)"
  shows "fold mutate (ev # evs) st =
           st\<lparr>clock := fst (last (ev # evs)),
              pending := [(next_timer st + length evs, fst (last (ev # evs)) + 500,
                           snd (last (ev # evs)))],
              next_timer := Suc (next_timer st + length evs),
              saveTimeoutRef := Some (next_timer st + length evs)\<rparr>"
  using assms
proof (induction evs arbitrary: ev st)
  case Nil
  then show ?case by (simp add: mutate_in_burst)
next
  case (Cons ev' evs)
  let ?st1 = "mutate ev st"
  have st1: "?st1 = st\<lparr>clock := fst ev,
              pending := [(next_timer st, fst ev + 500, snd ev)],
              next_timer := Suc (next_timer st),
              saveTimeoutRef := Some (next_timer st)\<rparr>"
    using Cons.prems by (simp add: mutate_in_burst)
  have b: "burst (ev' # evs)" and le: "fst ev \<le> fst ev'" and lt: "fst ev' < fst ev + 500"
    using Cons.prems(1) by simp_all
  have "fold mutate (ev' # evs) ?st1 =
           ?st1\<lparr>clock := fst (last (ev' # evs)),
              pending := [(next_timer ?st1 + length evs, fst (last (ev' # evs)) + 500,
                           snd (last (ev' # evs)))],
              next_timer := Suc (next_timer ?st1 + length evs),
              saveTimeoutRef := Some (next_timer ?st1 + length evs)\<rparr>"
  proof (rule Cons.IH [OF b])
    show "armed ?st1" using Cons.prems(2) by (rule armed_mutate)
    show "\<not> isInitialLoadRef ?st1" using Cons.prems(3) by (simp add: st1)
    show "clock ?st1 \<le> fst ev'" using le by (simp add: st1)
    show "\<forall>p \<in> set (pending ?st1). fst ev' < fst (snd p)" using lt by (simp add: st1)
  qed
  then show ?case
    by (simp add: st1)
qed

lemma advance_single:
  "pending st = [(i, due, data)] \<Longrightarrow>
   saved (advance T st) = (if due \<le> T then saved st @ [(due, data)] else saved st)
   \<and> pending (advance T st) = (if due \<le> T then [] else [(i, due, data)])"
  by (simp add: advance_def)

text \<open>
  Claim C7. After the initial load, mutations at 0, 100 and 200 ms leave one pending timer;
  whatever time \<open>T\<close> the clock is moved to afterwards, the log of saves is empty before
  700 ms and holds one save from then on, made at 700 ms with the data of the mutation at
  200 ms. In general, for a burst of mutations (each less than 500 ms after the one before)
  starting when nothing is pending, no save happens during the burst, and once 500 ms have
  passed after the last mutation exactly one save has happened, at that moment, with the
  data of the last mutation. At every moment at most one timer is pending.
\<close>

theorem debouncedSave_coalesces:
  "saved (advance T (fold mutate [(0, s0), (100, s1), (200, s2)]
                       (mounted\<lparr>isInitialLoadRef := False\<rparr>)))
     = (if 700 \<le> T then [(700, s2)] else [])
   \<and> (evs \<noteq> [] \<and> burst evs \<and> armed st \<and> pending st = [] \<and> \<not> isInitialLoadRef st
        \<and> clock st \<le> fst (hd evs) \<longrightarrow>
        saved (fold mutate evs st) = saved st
        \<and> saved (advance T (fold mutate evs st))
            = (if fst (last evs) + 500 \<le> T
               then saved st @ [(fst (last evs) + 500, snd (last evs))] else saved st)
        \<and> pending (advance T (fold mutate evs st))
            = (if fst (last evs) + 500 \<le> T then []
               else [(next_timer st + length evs - 1, fst (last evs) + 500, snd (last evs))]))
   \<and> length (pending (fold mutate evs' (mounted\<lparr>isInitialLoadRef := False\<rparr>))) \<le> 1"
proof (intro conjI impI)
  let ?init = "mounted\<lparr>isInitialLoadRef := False\<rparr> :: 'a persistence"
  have b3: "burst [(0::nat, s0), (100, s1), (200, s2)]"
    by simp
  have "fold mutate [(0, s0), (100, s1), (200, s2)] ?init =
      ?init\<lparr>clock := 200, pending := [(3, 700, s2)], next_timer := 4,
             saveTimeoutRef := Some 3\<rparr>"
    using burst_run [OF b3 armed_loaded]
    by (simp add: mounted_def)
  then show "saved (advance T (fold mutate [(0, s0), (100, s1), (200, s2)] ?init))
     = (if 700 \<le> T then [(700, s2)] else [])"
    by (simp add: advance_def mounted_def)
next
  assume a: "evs \<noteq> [] \<and> burst evs \<and> armed st \<and> pending st = [] \<and> \<not> isInitialLoadRef st
        \<and> clock st \<le> fst (hd evs)"
  then obtain ev rest where evs: "evs = ev # rest"
    by (cases evs) auto
  have run: "fold mutate evs st =
           st\<lparr>clock := fst (last evs),
              pending := [(next_timer st + length rest, fst (last evs) + 500, snd (last evs))],
              next_timer := Suc (next_timer st + length rest),
              saveTimeoutRef := Some (next_timer st + length rest)\<rparr>"
    unfolding evs using a by (intro burst_run) (simp_all add: evs)
  show "saved (fold mutate evs st) = saved st"
    by (simp add: run)
  have p: "pending (fold mutate evs st)
      = [(next_timer st + length evs - 1, fst (last evs) + 500, snd (last evs))]"
    by (simp add: run) (simp add: evs)
  show "saved (advance T (fold mutate evs st))
            = (if fst (last evs) + 500 \<le> T
               then saved st @ [(fst (last evs) + 500, snd (last evs))] else saved st)"
    using advance_single [OF p, of T] by (simp add: run)
  show "pending (advance T (fold mutate evs st))
            = (if fst (last evs) + 500 \<le> T then []
               else [(next_timer st + length evs - 1, fst (last evs) + 500, snd (last evs))])"
    using advance_single [OF p, of T] by simp
next
  have "armed (fold mutate evs' (mounted\<lparr>isInitialLoadRef := False\<rparr>))"
    by (rule armed_run [OF armed_loaded])
  then show "length (pending (fold mutate evs' (mounted\<lparr>isInitialLoadRef := False\<rparr>))) \<le> 1"
    by (rule armed_pending_le)
qed

text \<open>The theorem at the three mutations of the claim, with the clock moved to one
  second and to 699 ms, and at a later burst of two mutations.\<close>

theorem debouncedSave_coalesces_witness:
  "saved (advance 1000 (fold mutate [(0, ''s0''), (100, ''s1''), (200, ''s2'')]
                          (mounted\<lparr>isInitialLoadRef := False\<rparr>)))
     = [(700, ''s2'')]
   \<and> saved (advance 699 (fold mutate [(0, ''s0''), (100, ''s1''), (200, ''s2'')]
                          (mounted\<lparr>isInitialLoadRef := False\<rparr>)))
     = []
   \<and> saved (advance 1700 (fold mutate [(1000, ''a''), (1200, ''b'')]
                          (mounted\<lparr>isInitialLoadRef := False\<rparr>)))
     = [(1700, ''b'')]"
proof -
  have a: "saved (advance 1000 (fold mutate [(0, ''s0''), (100, ''s1''), (200, ''s2'')]
                          (mounted\<lparr>isInitialLoadRef := False\<rparr>)))
     = (if (700::nat) \<le> 1000 then [(700, ''s2'')] else [])"
    by (rule debouncedSave_coalesces [THEN conjunct1])
  have b: "saved (advance 699 (fold mutate [(0, ''s0''), (100, ''s1''), (200, ''s2'')]
                          (mounted\<lparr>isInitialLoadRef := False\<rparr>)))
     = (if (700::nat) \<le> 699 then [(700, ''s2'')] else [])"
    by (rule debouncedSave_coalesces [THEN conjunct1])
  let ?evs = "[(1000::nat, ''a''), (1200, ''b'')]"
  let ?st = "mounted\<lparr>isInitialLoadRef := False\<rparr> :: string persistence"
  have h: "?evs \<noteq> [] \<and> burst ?evs \<and> armed ?st \<and> pending ?st = []
        \<and> \<not> isInitialLoadRef ?st \<and> clock ?st \<le> fst (hd ?evs)"
    by (simp add: armed_def mounted_def)
  have "saved (advance 1700 (fold mutate ?evs ?st))
      = (if fst (last ?evs) + 500 \<le> 1700
         then saved ?st @ [(fst (last ?evs) + 500, snd (last ?evs))] else saved ?st)"
    using debouncedSave_coalesces [THEN conjunct2, THEN conjunct1, rule_format, OF h,
        THEN conjunct2, THEN conjunct1] .
  then have c: "saved (advance 1700 (fold mutate ?evs ?st)) = [(1700, ''b'')]"
    by (simp add: mounted_def del: fold_simps)
  from a b c show ?thesis
    by (simp del: fold_simps)
qed

section \<open>Properties of the session log lookup\<close>

lemma WEEKDAYS_nonempty: "w \<in> set WEEKDAYS \<Longrightarrow> w \<noteq> []"
  by (auto simp: WEEKDAYS_def)

lemma getScheduledSplit_found:
  "d \<noteq> [] \<Longrightarrow> find (\<lambda>split. d \<in> set (days split)) splits_ctx = Some s \<Longrightarrow>
   getScheduledSplit splits_ctx (JVal d) = JVal s"
  by (simp add: getScheduledSplit_def)

lemma getScheduledSplit_none:
  "d \<noteq> [] \<Longrightarrow> \<forall>s \<in> set splits_ctx. d \<notin> set (days s) \<Longrightarrow>
   getScheduledSplit splits_ctx (JVal d) = JUndefined"
  by (simp add: getScheduledSplit_def find_None_iff[THEN iffD2])

text \<open>
  Claim C10. For a non-empty day label (every weekday label is one), when the split at
  position \<open>i\<close> of the schedule has the day in its day list and no split before it has,
  the lookup returns that split, whatever the splits after it hold.
\<close>

theorem getScheduledSplit_first_in_stored_order:
  assumes "d \<noteq> []" and "i < length splits_ctx" and "d \<in> set (days (splits_ctx ! i))"
    and "\<forall>j < i. d \<notin> set (days (splits_ctx ! j))"
  shows "getScheduledSplit splits_ctx (JVal d) = JVal (splits_ctx ! i)
       \<and> (\<forall>w \<in> set WEEKDAYS. w \<noteq> [])"
proof -
  have "find (\<lambda>split. d \<in> set (days split)) splits_ctx = Some (splits_ctx ! i)"
    unfolding find_Some_iff using assms(2-4) by blast
  with assms(1) show ?thesis
    by (simp add: getScheduledSplit_found WEEKDAYS_nonempty)
qed

text \<open>The theorem at a loaded schedule in which the second and the third split both hold
  Wednesday.\<close>

theorem getScheduledSplit_first_in_stored_order_witness:
  "getScheduledSplit
     [\<lparr>split_id = ''A'', split_name = ''Push'', days = [''Mon''], color = None,
       exercises = []::exercise_ref list\<rparr>,
      \<lparr>split_id = ''B'', split_name = ''Pull'', days = [''Tue'', ''Wed''], color = None,
       exercises = []\<rparr>,
      \<lparr>split_id = ''C'', split_name = ''Legs'', days = [''Wed''], color = None,
       exercises = []\<rparr>]
     (JVal ''Wed'')
   = JVal \<lparr>split_id = ''B'', split_name = ''Pull'', days = [''Tue'', ''Wed''], color = None,
           exercises = []\<rparr>"
proof -
  let ?ss = "[\<lparr>split_id = ''A'', split_name = ''Push'', days = [''Mon''], color = None,
       exercises = []::exercise_ref list\<rparr>,
      \<lparr>split_id = ''B'', split_name = ''Pull'', days = [''Tue'', ''Wed''], color = None,
       exercises = []\<rparr>,
      \<lparr>split_id = ''C'', split_name = ''Legs'', days = [''Wed''], color = None,
       exercises = []\<rparr>]"
  have "getScheduledSplit ?ss (JVal ''Wed'') = JVal (?ss ! 1)"
    by (rule getScheduledSplit_first_in_stored_order [THEN conjunct1]) simp_all
  then show ?thesis
    by simp
qed

subsection \<open>Date strings and their order\<close>

lemma div10_less: "(a::nat) div 10 < b div 10 \<Longrightarrow> a < b"
  by (rule ccontr) (simp add: not_less div_le_mono leD)

lemma mod10_less: "(a::nat) div 10 = b div 10 \<Longrightarrow> a mod 10 < b mod 10 \<Longrightarrow> a < b"
proof -
  assume h: "a div 10 = b div 10" "a mod 10 < b mod 10"
  have "a = 10 * (a div 10) + a mod 10" "b = 10 * (b div 10) + b mod 10"
    by simp_all
  with h show ?thesis by linarith
qed

lemma less_div10_mod10:
  "(a::nat) < b \<Longrightarrow> a div 10 < b div 10 \<or> a div 10 = b div 10 \<and> a mod 10 < b mod 10"
proof -
  assume lt: "a < b"
  have ab: "a = 10 * (a div 10) + a mod 10" "b = 10 * (b div 10) + b mod 10"
    by simp_all
  have le: "a div 10 \<le> b div 10"
    using lt by (intro div_le_mono) simp
  show ?thesis
  proof (cases "a div 10 = b div 10")
    case True
    with lt ab have "a mod 10 < b mod 10" by linarith
    with True show ?thesis by simp
  next
    case False
    with le show ?thesis by simp
  qed
qed

lemma div10_mod10_eq: "((a::nat) div 10 = b div 10 \<and> a mod 10 = b mod 10) = (a = b)"
proof
  assume h: "a div 10 = b div 10 \<and> a mod 10 = b mod 10"
  have "a = 10 * (a div 10) + a mod 10" "b = 10 * (b div 10) + b mod 10"
    by simp_all
  with h show "a = b" by linarith
next
  assume "a = b"
  then show "a div 10 = b div 10 \<and> a mod 10 = b mod 10" by simp
qed

lemma lex_step:
  fixes a b :: nat
  shows "(a div 10 < b div 10 \<or> a div 10 = b div 10 \<and> (a mod 10 < b mod 10 \<or> a mod 10 = b mod 10 \<and> P))
       = (a < b \<or> a = b \<and> P)"
proof (cases "a = b")
  case True
  then show ?thesis by simp
next
  case False
  then have ne: "\<not> (a div 10 = b div 10 \<and> a mod 10 = b mod 10)"
    by (simp add: div10_mod10_eq)
  show ?thesis
  proof
    assume "a div 10 < b div 10 \<or> a div 10 = b div 10 \<and> (a mod 10 < b mod 10 \<or> a mod 10 = b mod 10 \<and> P)"
    with ne have "a div 10 < b div 10 \<or> a div 10 = b div 10 \<and> a mod 10 < b mod 10"
      by blast
    then have "a < b"
      using div10_less mod10_less by blast
    then show "a < b \<or> a = b \<and> P" ..
  next
    assume "a < b \<or> a = b \<and> P"
    with False have "a < b" by simp
    then have "a div 10 < b div 10 \<or> a div 10 = b div 10 \<and> a mod 10 < b mod 10"
      by (rule less_div10_mod10)
    then show "a div 10 < b div 10 \<or> a div 10 = b div 10 \<and> (a mod 10 < b mod 10 \<or> a mod 10 = b mod 10 \<and> P)"
      by blast
  qed
qed

lemma digit_code: "a < 10 \<Longrightarrow> of_char (''0123456789'' ! a) = (48 + a :: nat)"
proof -
  assume "a < 10"
  then have "a \<in> {0, 1, 2, 3, 4, 5, 6, 7, 8, 9}"
    by auto
  then show ?thesis
    by (elim insertE emptyE) simp_all
qed

lemma digit_less:
  "a < 10 \<Longrightarrow> b < 10 \<Longrightarrow> (''0123456789'' ! a < ''0123456789'' ! b) = (a < b)"
  by (simp add: less_char_def digit_code)

lemma digit_eq:
  "a < 10 \<Longrightarrow> b < 10 \<Longrightarrow> (''0123456789'' ! a = ''0123456789'' ! b) = (a = b)"
proof -
  assume a: "a < 10" and b: "b < 10"
  have "(''0123456789'' ! a = ''0123456789'' ! b)
      = ((of_char (''0123456789'' ! a) :: nat) = of_char (''0123456789'' ! b))"
    by simp
  also have "\<dots> = (a = b)"
    using a b by (simp only: digit_code) simp
  finally show ?thesis .
qed

lemma toString_digit_less:
  "a < 10 \<Longrightarrow> b < 10 \<Longrightarrow>
   (toString a @ r < toString b @ r') = (a < b \<or> (a = b \<and> r < r'))"
  by (simp add: toString.simps [of a] toString.simps [of b] digit_less digit_eq)

lemma toString_step_less:
  assumes "10 \<le> a" and "10 \<le> b"
    and ok: "\<And>r r'. (toString (a div 10) @ r < toString (b div 10) @ r')
      = (a div 10 < b div 10 \<or> (a div 10 = b div 10 \<and> r < r'))"
  shows "(toString a @ r < toString b @ r') = (a < b \<or> (a = b \<and> r < r'))"
proof -
  have a: "toString a = toString (a div 10) @ [''0123456789'' ! (a mod 10)]"
    using assms(1) by (simp add: toString.simps [of a])
  have b: "toString b = toString (b div 10) @ [''0123456789'' ! (b mod 10)]"
    using assms(2) by (simp add: toString.simps [of b])
  have "(toString a @ r < toString b @ r')
      = (toString (a div 10) @ (''0123456789'' ! (a mod 10) # r)
         < toString (b div 10) @ (''0123456789'' ! (b mod 10) # r'))"
    by (simp add: a b)
  also have "\<dots> = (a div 10 < b div 10 \<or> a div 10 = b div 10 \<and>
        (''0123456789'' ! (a mod 10) # r < ''0123456789'' ! (b mod 10) # r'))"
    by (rule ok)
  also have "\<dots> = (a div 10 < b div 10 \<or> a div 10 = b div 10 \<and>
        (a mod 10 < b mod 10 \<or> a mod 10 = b mod 10 \<and> r < r'))"
    by (simp add: digit_less digit_eq)
  also have "\<dots> = (a < b \<or> a = b \<and> r < r')"
    by (rule lex_step)
  finally show ?thesis .
qed

lemma toString_year_less:
  assumes "1000 \<le> y" "y < 10000" "1000 \<le> y'" "y' < 10000"
  shows "(toString y @ r < toString y' @ r') = (y < y' \<or> (y = y' \<and> r < r'))"
proof -
  have d3: "y div 10 div 10 div 10 < 10" "y' div 10 div 10 div 10 < 10"
    using assms by (simp_all add: div_mult2_eq [symmetric])
  have d2: "10 \<le> y div 10 div 10" "10 \<le> y' div 10 div 10"
    using assms by (simp_all add: div_mult2_eq [symmetric])
  have d1: "10 \<le> y div 10" "10 \<le> y' div 10"
    using assms by simp_all
  have d0: "10 \<le> y" "10 \<le> y'"
    using assms by simp_all
  have 3: "\<And>r r'. (toString (y div 10 div 10 div 10) @ r < toString (y' div 10 div 10 div 10) @ r')
      = (y div 10 div 10 div 10 < y' div 10 div 10 div 10
         \<or> (y div 10 div 10 div 10 = y' div 10 div 10 div 10 \<and> r < r'))"
    using d3 by (rule toString_digit_less)
  have 2: "\<And>r r'. (toString (y div 10 div 10) @ r < toString (y' div 10 div 10) @ r')
      = (y div 10 div 10 < y' div 10 div 10 \<or> (y div 10 div 10 = y' div 10 div 10 \<and> r < r'))"
    using d2 3 by (rule toString_step_less)
  have 1: "\<And>r r'. (toString (y div 10) @ r < toString (y' div 10) @ r')
      = (y div 10 < y' div 10 \<or> (y div 10 = y' div 10 \<and> r < r'))"
    using d1 2 by (rule toString_step_less)
  show ?thesis
    using d0 1 by (rule toString_step_less)
qed

lemma padStart_two:
  assumes "n < 100"
  shows "padStart 2 (CHR ''0'') (toString n)
           = [''0123456789'' ! (n div 10), ''0123456789'' ! (n mod 10)]"
proof (cases "n < 10")
  case True
  then show ?thesis
    by (simp add: toString.simps [of n] padStart_def)
next
  case False
  then have "toString n = toString (n div 10) @ [''0123456789'' ! (n mod 10)]"
    by (simp add: toString.simps [of n])
  moreover have "n div 10 < 10"
    using assms by simp
  then have "toString (n div 10) = [''0123456789'' ! (n div 10)]"
    by (simp add: toString.simps [of "n div 10"])
  ultimately show ?thesis
    by (simp add: padStart_def)
qed

lemma two_digits_less:
  assumes "n < 100" "n' < 100"
  shows "(padStart 2 (CHR ''0'') (toString n) @ r < padStart 2 (CHR ''0'') (toString n') @ r')
         = (n < n' \<or> (n = n' \<and> r < r'))"
proof -
  have b: "n div 10 < 10" "n mod 10 < 10" "n' div 10 < 10" "n' mod 10 < 10"
    using assms by simp_all
  have "(padStart 2 (CHR ''0'') (toString n) @ r < padStart 2 (CHR ''0'') (toString n') @ r')
      = (n div 10 < n' div 10 \<or> n div 10 = n' div 10 \<and>
          (n mod 10 < n' mod 10 \<or> n mod 10 = n' mod 10 \<and> r < r'))"
    by (simp add: padStart_two assms digit_less digit_eq b)
  also have "\<dots> = (n < n' \<or> (n = n' \<and> r < r'))"
    by (rule lex_step)
  finally show ?thesis .
qed

lemma todayString_less:
  assumes "1000 \<le> y" "y < 10000" "1000 \<le> y'" "y' < 10000" "m < 12" "m' < 12"
    "d < 100" "d' < 100"
  shows "(todayString y m d < todayString y' m' d')
         = (y < y' \<or> (y = y' \<and> (m < m' \<or> (m = m' \<and> d < d'))))"
proof -
  have "(padStart 2 (CHR ''0'') (toString d) @ [] < padStart 2 (CHR ''0'') (toString d') @ [])
      = (d < d' \<or> (d = d' \<and> ([]::string) < []))"
    using assms(7,8) by (rule two_digits_less)
  then have dd: "(padStart 2 (CHR ''0'') (toString d) < padStart 2 (CHR ''0'') (toString d'))
      = (d < d')"
    by simp
  have m1: "m + 1 < 100" "m' + 1 < 100"
    using assms(5,6) by simp_all
  have "(padStart 2 (CHR ''0'') (toString (m + 1)) @ (''-'' @ padStart 2 (CHR ''0'') (toString d))
         < padStart 2 (CHR ''0'') (toString (m' + 1)) @ (''-'' @ padStart 2 (CHR ''0'') (toString d')))
      = (m + 1 < m' + 1 \<or> (m + 1 = m' + 1 \<and>
           ''-'' @ padStart 2 (CHR ''0'') (toString d) < ''-'' @ padStart 2 (CHR ''0'') (toString d')))"
    using m1 by (rule two_digits_less)
  then have mm: "(padStart 2 (CHR ''0'') (toString (m + 1)) @ ''-'' @ padStart 2 (CHR ''0'') (toString d)
         < padStart 2 (CHR ''0'') (toString (m' + 1)) @ ''-'' @ padStart 2 (CHR ''0'') (toString d'))
      = (m < m' \<or> (m = m' \<and> d < d'))"
    by (simp add: dd)
  have "(todayString y m d < todayString y' m' d')
      = (y < y' \<or> (y = y' \<and>
          ''-'' @ padStart 2 (CHR ''0'') (toString (m + 1)) @ ''-'' @ padStart 2 (CHR ''0'') (toString d)
          < ''-'' @ padStart 2 (CHR ''0'') (toString (m' + 1)) @ ''-'' @ padStart 2 (CHR ''0'') (toString d')))"
    unfolding todayString_def using assms(1-4) by (rule toString_year_less)
  also have "\<dots> = (y < y' \<or> (y = y' \<and> (m < m' \<or> (m = m' \<and> d < d'))))"
    using mm by simp
  finally show ?thesis .
qed

subsection \<open>Whether a date is in the future\<close>

text \<open>On dates written as \<^verbatim>\<open>todayString\<close> writes them, the comparison of the strings is the
  order of the calendar.\<close>

lemma isFutureDate_calendar_order:
  assumes "1000 \<le> y" "y < 10000" "1000 \<le> y'" "y' < 10000" "m < 12" "m' < 12"
    "d < 100" "d' < 100"
  shows "isFutureDate (JVal (todayString y' m' d')) (todayString y m d)
         = (y < y' \<or> (y = y' \<and> (m < m' \<or> (m = m' \<and> d < d'))))"
proof -
  have "todayString y' m' d' \<noteq> []"
    by (simp add: todayString_def)
  then show ?thesis
    using todayString_less [OF assms] by (simp add: isFutureDate_def)
qed

lemma isFutureDate_absent: "isFutureDate JNull today = False"
  by (simp add: isFutureDate_def)

subsection \<open>The weekday of a date\<close>

text \<open>
  The weekday of the day numbered \<open>d\<close> is \<open>(d + 4) mod 7\<close>, day 0 having been a Thursday.
  East of Greenwich by less than a day, or on it, \<^verbatim>\<open>getDay\<close> at the start of the UTC day
  \<open>d\<close> reads that weekday. West of Greenwich it reads the weekday before.
\<close>

lemma Date_getDay_less_7: "Date_getDay tza t < 7"
  by (simp add: Date_getDay_def nat_less_iff)

lemma Date_getDay_east:
  assumes "0 \<le> tza (d * msPerDay)" and "tza (d * msPerDay) < msPerDay"
  shows "Date_getDay tza (d * msPerDay) = nat ((d + 4) mod 7)"
proof -
  have "(d * msPerDay + tza (d * msPerDay)) div msPerDay
      = d + tza (d * msPerDay) div msPerDay"
    by (simp add: msPerDay_def)
  also have "tza (d * msPerDay) div msPerDay = 0"
    using assms by simp
  finally show ?thesis
    by (simp add: Date_getDay_def)
qed

lemma Date_getDay_west:
  assumes "- msPerDay \<le> tza (d * msPerDay)" and "tza (d * msPerDay) < 0"
  shows "Date_getDay tza (d * msPerDay) = nat ((d - 1 + 4) mod 7)"
proof -
  let ?o = "tza (d * msPerDay)"
  have "(d * msPerDay + ?o) div msPerDay = ((d - 1) * msPerDay + (?o + msPerDay)) div msPerDay"
    by (simp add: algebra_simps)
  also have "\<dots> = (d - 1) + (?o + msPerDay) div msPerDay"
    by (simp add: msPerDay_def)
  also have "(?o + msPerDay) div msPerDay = 0"
    using assms by simp
  finally show ?thesis
    by (simp add: Date_getDay_def)
qed

text \<open>A date of the calendar in the date-only form is read as the start of its day in
  UTC, and \<^verbatim>\<open>getDayOfWeek\<close> names the weekday \<^verbatim>\<open>getDay\<close> reads there.\<close>

lemma getDayOfWeek_date_only:
  assumes "parse_date_only s = Some (y, m, d)"
    and "1 \<le> m" "m \<le> 12" "1 \<le> d" "d \<le> days_in_month (m - 1) (InLeapYear y)"
  shows "getDayOfWeek tza other (JVal s)
         = JVal ([''Sun'', ''Mon'', ''Tue'', ''Wed'', ''Thu'', ''Fri'', ''Sat'']
                   ! Date_getDay tza (MakeDay y (m - 1) d * msPerDay))"
proof -
  have "s \<noteq> []"
    using assms(1) by auto
  moreover have "Date_parse other s = Some (MakeDay y (m - 1) d * msPerDay)"
    using assms by (simp add: Date_parse_def)
  ultimately show ?thesis
    using Date_getDay_less_7 [of tza "MakeDay y (m - 1) d * msPerDay"]
    by (simp add: getDayOfWeek_def)
qed

text \<open>The last day of 2024, a Tuesday, is day 20088.\<close>

lemma parse_2024_12_31: "parse_date_only ''2024-12-31'' = Some (2024, 12, 31)"
  by (simp add: is_digit_def int_of_digits_def)

lemma MakeDay_2024_12_31: "MakeDay 2024 11 31 = 20088"
  by (simp add: MakeDay_def DayFromYear_def days_before_month_def InLeapYear_def)

lemma Date_parse_2024_12_31: "Date_parse other ''2024-12-31'' = Some (20088 * msPerDay)"
  by (simp add: Date_parse_def is_digit_def int_of_digits_def days_in_month_def
      InLeapYear_def MakeDay_def DayFromYear_def days_before_month_def)

subsection \<open>The lookup\<close>

text \<open>
  Claim C8, at a failing input. The device is five hours west of Greenwich and the date
  selected in the calendar is 2024-12-31, a Tuesday (on Greenwich time the function does
  name it \<open>Tue\<close>). \<^verbatim>\<open>new Date("2024-12-31")\<close> is the start of that day in UTC, which on the
  device is seven in the evening of Monday the 30th, so \<^verbatim>\<open>getDay()\<close> reads 1 and the weekday
  looked up is \<open>Mon\<close>: with a split on Monday and another on Tuesday the lookup returns
  Monday's split, and with only the split on Tuesday it finds nothing.
\<close>

theorem scheduledSplit_looks_up_previous_weekday:
  "getDayOfWeek (\<lambda>t. 0) (\<lambda>s. None) (JVal ''2024-12-31'') = JVal ''Tue''
   \<and> getDayOfWeek (\<lambda>t. - 18000000) (\<lambda>s. None) (JVal ''2024-12-31'') = JVal ''Mon''
   \<and> scheduledSplit (\<lambda>t. - 18000000) (\<lambda>s. None)
       [\<lparr>split_id = ''A'', split_name = ''Push'', days = [''Mon''], color = None,
         exercises = []::exercise_ref list\<rparr>,
        \<lparr>split_id = ''B'', split_name = ''Pull'', days = [''Tue''], color = None,
         exercises = []\<rparr>]
       (JVal ''2024-12-31'') ''2024-12-30''
     = JVal \<lparr>split_id = ''A'', split_name = ''Push'', days = [''Mon''], color = None,
             exercises = []\<rparr>
   \<and> scheduledSplit (\<lambda>t. - 18000000) (\<lambda>s. None)
       [\<lparr>split_id = ''B'', split_name = ''Pull'', days = [''Tue''], color = None,
         exercises = []::exercise_ref list\<rparr>]
       (JVal ''2024-12-31'') ''2024-12-30''
     = JUndefined"
proof -
  have tue: "getDayOfWeek (\<lambda>t. 0) (\<lambda>s. None) (JVal ''2024-12-31'') = JVal ''Tue''"
    by (simp add: getDayOfWeek_def Date_parse_2024_12_31 Date_getDay_def msPerDay_def)
  have mon: "getDayOfWeek (\<lambda>t. - 18000000) (\<lambda>s. None) (JVal ''2024-12-31'') = JVal ''Mon''"
    by (simp add: getDayOfWeek_def Date_parse_2024_12_31 Date_getDay_def msPerDay_def)
  show ?thesis
    by (simp add: tue mon scheduledSplit_def getScheduledSplit_def truthy_str_def)
qed

end
